theory Spec2Isabelle
  imports Complex_Main "HOL-Library.AList"
begin

section \<open>JavaScript values, dates and JSON\<close>

text \<open>
  A \<open>Date\<close> object holds a time value: a whole number of milliseconds since the epoch,
  or NaN (an invalid date). \<open>new Date()\<close> always yields a valid date; the functions below
  that read the clock take the millisecond count as a parameter.
\<close>

datatype Date = DateMs int | InvalidDate

text \<open>
  The values a field typed \<open>unknown\<close> can hold. Numbers are restricted to the integers and
  NaN (which also stands for the other non-finite numbers); functions and symbols are left
  out. An object is the list of its own properties, each key once. \<open>VCyclic\<close> stands for
  an object or array that contains itself; with the big integers it is what
  \<open>JSON.stringify\<close> throws a \<open>TypeError\<close> on.
\<close>

datatype jsval =
    VUndefined
  | VNull
  | VBool bool
  | VNum int
  | VNaN
  | VStr string
  | VDate Date
  | VBigInt int
  | VCyclic
  | VArr "jsval list"
  | VObj "(string \<times> jsval) list"

text \<open>The trees \<open>JSON.parse\<close> produces and \<open>JSON.stringify\<close> writes.\<close>

datatype json =
    JNull
  | JBool bool
  | JNum int
  | JStr string
  | JArr "json list"
  | JObj "(string \<times> json) list"

text \<open>What a \<open>catch\<close> clause receives: an \<open>Error\<close> instance with its message, or another value.\<close>

datatype thrown = ErrorObj string | NonError

section \<open>Dates as ISO strings\<close>

text \<open>
  \<open>Date.prototype.toISOString\<close> and the \<open>Date\<close> constructor applied to a string are
  built into the language; the code relies on the first to write dates and on the second
  to read them back. They are modelled after the day and year arithmetic of the ECMAScript
  standard, on time values in milliseconds.
\<close>

text \<open>The number of the first day of a year, counted from 1 January 1970, and leap years.\<close>

definition msPerDay :: int where
  "msPerDay = 86400000"

definition DayFromYear :: "int \<Rightarrow> int" where
  "DayFromYear y = 365 * (y - 1970) + (y - 1969) div 4 - (y - 1901) div 100 + (y - 1601) div 400"

definition InLeapYear :: "int \<Rightarrow> bool" where
  "InLeapYear y = (if y mod 4 \<noteq> 0 then False else if y mod 100 \<noteq> 0 then True else y mod 400 = 0)"

text \<open>
  The year of a day number: the standard's largest \<open>y\<close> with
  \<open>DayFromYear y \<le> d\<close>, computed from an estimate that is off by one at most.
\<close>

definition YearFromDay :: "int \<Rightarrow> int" where
  "YearFromDay d =
     (let y = 1970 + (400 * d) div 146097
      in if DayFromYear (y + 1) \<le> d then y + 1 else if d < DayFromYear y then y - 1 else y)"

text \<open>
  The month (from 0) and the day within it (from 0) of a day within the year, found by
  walking the month lengths.
\<close>

definition month_lengths :: "int \<Rightarrow> int list" where
  "month_lengths y = [31, if InLeapYear y then 29 else 28, 31, 30, 31, 30, 31, 31, 30, 31, 30, 31]"

fun month_and_date :: "int list \<Rightarrow> nat \<Rightarrow> int \<Rightarrow> nat \<times> int" where
  "month_and_date [] m d = (m, d)"
| "month_and_date (l # ls) m d = (if d < l then (m, d) else month_and_date ls (Suc m) (d - l))"

text \<open>Decimal digits: a number in a fixed width with leading zeros, and the value of a digit string.\<close>

definition digit_char :: "nat \<Rightarrow> char" where
  "digit_char n = char_of (48 + n)"

definition digit_val :: "char \<Rightarrow> nat option" where
  "digit_val c = (let n = (of_char c :: nat) in if 48 \<le> n \<and> n \<le> 57 then Some (n - 48) else None)"

fun pad :: "nat \<Rightarrow> nat \<Rightarrow> string" where
  "pad 0 n = []"
| "pad (Suc k) n = pad k (n div 10) @ [digit_char (n mod 10)]"

fun digits_val :: "string \<Rightarrow> nat \<Rightarrow> nat option" where
  "digits_val [] acc = Some acc"
| "digits_val (c # cs) acc =
     (case digit_val c of None \<Rightarrow> None | Some d \<Rightarrow> digits_val cs (10 * acc + d))"

text \<open>
  \<open>toISOString\<close> for a time value: \<open>YYYY-MM-DDTHH:mm:ss.sssZ\<close>, the year as four digits
  from 0 to 9999 and as a sign with six digits otherwise.
\<close>

definition year_string :: "int \<Rightarrow> string" where
  "year_string y =
     (if 0 \<le> y \<and> y \<le> 9999 then pad 4 (nat y)
      else (if y < 0 then ''-'' else ''+'') @ pad 6 (nat \<bar>y\<bar>))"

definition toISOString :: "int \<Rightarrow> string" where
  "toISOString t =
     (let day = t div msPerDay;
          ms = t mod msPerDay;
          y = YearFromDay day;
          (m, d) = month_and_date (month_lengths y) 0 (day - DayFromYear y)
      in year_string y @ ''-'' @ pad 2 (Suc m) @ ''-'' @ pad 2 (nat d + 1) @ ''T''
           @ pad 2 (nat (ms div 3600000)) @ '':'' @ pad 2 (nat (ms div 60000 mod 60)) @ '':''
           @ pad 2 (nat (ms div 1000 mod 60)) @ ''.'' @ pad 3 (nat (ms mod 1000)) @ ''Z'')"

text \<open>
  \<open>new Date(string)\<close> for the two complete forms above; the result is invalid when a
  field is out of range or the time value is. Every other string is taken as invalid here
  (engines accept further formats, which \<open>toISOString\<close> never writes).
\<close>

definition parse_time_fields :: "int \<Rightarrow> string \<Rightarrow> Date" where
  "parse_time_fields y s =
     (if length s = 20 \<and> s ! 0 = CHR ''-'' \<and> s ! 3 = CHR ''-'' \<and> s ! 6 = CHR ''T'' \<and>
         s ! 9 = CHR '':'' \<and> s ! 12 = CHR '':'' \<and> s ! 15 = CHR ''.'' \<and> s ! 19 = CHR ''Z''
      then
        (case (digits_val (take 2 (drop 1 s)) 0, digits_val (take 2 (drop 4 s)) 0,
               digits_val (take 2 (drop 7 s)) 0, digits_val (take 2 (drop 10 s)) 0,
               digits_val (take 2 (drop 13 s)) 0, digits_val (take 3 (drop 16 s)) 0) of
           (Some mo, Some dd, Some hh, Some mi, Some ss, Some ms) \<Rightarrow>
             if 1 \<le> mo \<and> mo \<le> 12 \<and> 1 \<le> dd \<and> dd \<le> 31 \<and> hh \<le> 24 \<and> mi \<le> 59 \<and> ss \<le> 59 \<and>
                (hh < 24 \<or> (mi = 0 \<and> ss = 0 \<and> ms = 0))
             then
               (let day = DayFromYear y + sum_list (take (mo - 1) (month_lengths y)) + int dd - 1;
                    tv = day * msPerDay + int hh * 3600000 + int mi * 60000 + int ss * 1000 + int ms
                in if \<bar>tv\<bar> \<le> 8640000000000000 then DateMs tv else InvalidDate)
             else InvalidDate
         | _ \<Rightarrow> InvalidDate)
      else InvalidDate)"

definition parseDate :: "string \<Rightarrow> Date" where
  "parseDate s =
     (if length s = 24 then
        (case digits_val (take 4 s) 0 of
           Some y \<Rightarrow> parse_time_fields (int y) (drop 4 s)
         | None \<Rightarrow> InvalidDate)
      else if length s = 27 \<and> (hd s = CHR ''+'' \<or> hd s = CHR ''-'') then
        (case digits_val (take 6 (tl s)) 0 of
           Some y \<Rightarrow>
             if hd s = CHR ''-'' \<and> y = 0 then InvalidDate
             else parse_time_fields (if hd s = CHR ''-'' then - int y else int y) (drop 7 s)
         | None \<Rightarrow> InvalidDate)
      else InvalidDate)"

section \<open>types.ts\<close>

text \<open>
  Field names carry a short prefix of their record, since several interfaces of the source
  share field names; \<open>TelemetryEvent\<close> keeps the source's names.

  The records are polymorphic in the representation of dates \<open>'d\<close>, of \<open>unknown\<close>
  values \<open>'u\<close> and of the journey metadata object \<open>'m\<close>, so that the same declarations
  describe an event in memory (\<open>Date\<close>, \<open>jsval\<close>), the object \<open>serializeEvent\<close> builds
  (dates as strings) and the parsed storage image (\<open>json\<close> throughout).
\<close>

datatype SeverityLevel = Debug | Info | Warning | Error | Fatal

datatype BreadcrumbCategory =
  UI | HTTP | Navigation | Console | Auth | Business | Notification | Custom

record ('d, 'u) Breadcrumb =
  b_timestamp :: 'd
  b_category :: BreadcrumbCategory
  b_message :: string
  b_level :: "SeverityLevel option"
  b_data :: "(string \<times> 'u) list option"

record 'u User =
  u_id :: string
  u_email :: "string option"
  u_name :: "string option"
  u_data :: "(string \<times> 'u) list option"

record StackFrame =
  sf_function :: "string option"
  sf_filename :: "string option"
  sf_lineno :: "int option"
  sf_colno :: "int option"
  sf_context :: "string list option"

record ExceptionInfo =
  ex_type :: string
  ex_message :: string
  ex_stacktrace :: "StackFrame list option"

record PlatformInfo =
  p_name :: string
  p_version :: "string option"
  p_os :: "string option"
  p_userAgent :: "string option"

record ('d, 'm) JourneyContext =
  jc_journeyId :: string
  jc_name :: string
  jc_currentStep :: "string option"
  jc_startedAt :: 'd
  jc_metadata :: 'm

datatype StepStatus = in_progress | completed | failed

record JourneyStep =
  s_name :: string
  s_category :: "string option"
  s_startedAt :: Date
  s_endedAt :: "Date option"
  s_status :: StepStatus
  s_data :: "(string \<times> jsval) list"

record ('d, 'u, 'm) TelemetryEvent =
  eventId :: string
  timestamp :: 'd
  level :: SeverityLevel
  message :: "string option"
  exception :: "ExceptionInfo option"
  user :: "'u User option"
  tags :: "(string \<times> string) list"
  extra :: "(string \<times> 'u) list"
  breadcrumbs :: "('d, 'u) Breadcrumb list"
  journey :: "('d, 'm) JourneyContext option"
  environment :: "string option"
  appVersion :: "string option"
  platform :: PlatformInfo

text \<open>
  \<open>SendResult.eventId\<close> is typed \<open>string\<close>, but \<open>Transport.send\<close> stores whatever the
  response body holds under \<open>eventId\<close>, so the field is a JSON value here.
\<close>

record SendResult =
  r_success :: bool
  r_eventId :: "json option"
  r_error :: "string option"
  r_queued :: "bool option"

section \<open>breadcrumbs.ts\<close>

text \<open>
  \<open>Array.prototype.slice(start)\<close> with one argument: a negative start counts from the
  end (clamped at the first element), a non-negative one from the front. \<open>-0\<close> is \<open>0\<close>.
\<close>

definition slice :: "int \<Rightarrow> 'a list \<Rightarrow> 'a list" where
  "slice start xs =
     (if start < 0 then drop (nat (int (length xs) + start)) xs else drop (nat start) xs)"

record BreadcrumbManager =
  maxBreadcrumbs :: int
  bm_breadcrumbs :: "(Date, jsval) Breadcrumb list"

definition BreadcrumbManager_new :: "int \<Rightarrow> BreadcrumbManager" where
  "BreadcrumbManager_new n = \<lparr>maxBreadcrumbs = n, bm_breadcrumbs = []\<rparr>"

text \<open>
  \<open>add(message, category = 'custom', level = 'info', data?)\<close>; \<open>now\<close> is the clock reading
  of \<open>new Date()\<close>. An omitted argument is \<open>None\<close>.
\<close>

definition add ::
  "BreadcrumbManager \<Rightarrow> int \<Rightarrow> string \<Rightarrow> BreadcrumbCategory option \<Rightarrow> SeverityLevel option
     \<Rightarrow> (string \<times> jsval) list option \<Rightarrow> BreadcrumbManager" where
  "add m now msg category lvl dat =
     (let breadcrumb = \<lparr>b_timestamp = DateMs now,
                        b_category = (case category of None \<Rightarrow> Custom | Some c \<Rightarrow> c),
                        b_message = msg,
                        b_level = Some (case lvl of None \<Rightarrow> Info | Some l \<Rightarrow> l),
                        b_data = dat\<rparr>;
          pushed = bm_breadcrumbs m @ [breadcrumb]
      in if int (length pushed) > maxBreadcrumbs m
         then m\<lparr>bm_breadcrumbs := slice (- maxBreadcrumbs m) pushed\<rparr>
         else m\<lparr>bm_breadcrumbs := pushed\<rparr>)"

text \<open>\<open>addBreadcrumb(breadcrumb)\<close>: the timestamp is optional and defaults to the clock.\<close>

definition addBreadcrumb ::
  "BreadcrumbManager \<Rightarrow> int \<Rightarrow> (Date option, jsval) Breadcrumb \<Rightarrow> BreadcrumbManager" where
  "addBreadcrumb m now breadcrumb =
     (let fullBreadcrumb = \<lparr>b_timestamp = (case b_timestamp breadcrumb of
                                               None \<Rightarrow> DateMs now | Some t \<Rightarrow> t),
                            b_category = b_category breadcrumb,
                            b_message = b_message breadcrumb,
                            b_level = b_level breadcrumb,
                            b_data = b_data breadcrumb\<rparr>;
          pushed = bm_breadcrumbs m @ [fullBreadcrumb]
      in if int (length pushed) > maxBreadcrumbs m
         then m\<lparr>bm_breadcrumbs := slice (- maxBreadcrumbs m) pushed\<rparr>
         else m\<lparr>bm_breadcrumbs := pushed\<rparr>)"

text \<open>\<open>getAll\<close> returns a fresh array with the same elements; \<open>clear\<close> installs an empty one.\<close>

definition getAll :: "BreadcrumbManager \<Rightarrow> (Date, jsval) Breadcrumb list" where
  "getAll m = bm_breadcrumbs m"

definition clear :: "BreadcrumbManager \<Rightarrow> BreadcrumbManager" where
  "clear m = m\<lparr>bm_breadcrumbs := []\<rparr>"

text \<open>One \<open>add\<close> call is its clock reading and its four arguments.\<close>

type_synonym add_call =
  "int \<times> string \<times> BreadcrumbCategory option \<times> SeverityLevel option \<times> (string \<times> jsval) list option"

fun add_all :: "BreadcrumbManager \<Rightarrow> add_call list \<Rightarrow> BreadcrumbManager" where
  "add_all m [] = m"
| "add_all m ((now, msg, category, lvl, dat) # calls) =
     add_all (add m now msg category lvl dat) calls"

text \<open>The breadcrumb an \<open>add\<close> call builds.\<close>

fun breadcrumb_of :: "add_call \<Rightarrow> (Date, jsval) Breadcrumb" where
  "breadcrumb_of (now, msg, category, lvl, dat) =
     \<lparr>b_timestamp = DateMs now,
      b_category = (case category of None \<Rightarrow> Custom | Some c \<Rightarrow> c),
      b_message = msg,
      b_level = Some (case lvl of None \<Rightarrow> Info | Some l \<Rightarrow> l),
      b_data = dat\<rparr>"

section \<open>journey.ts\<close>

text \<open>
  A \<open>Journey\<close> owns its array of step objects; \<open>currentStep\<close> and every \<open>Step\<close> handle are
  references to an element of that array, modelled as its index (steps are only ever
  appended). The metadata object is shared with the contexts \<open>getContext\<close> hands out, so it
  lives in an object store and the journey holds its address.
\<close>

record Journey =
  j_id :: string
  j_name :: string
  j_startedAt :: Date
  j_metadata :: nat
  j_user :: "jsval User option"
  j_steps :: "JourneyStep list"
  j_currentStep :: "nat option"
  j_completed :: bool
  j_failed :: bool

text \<open>
  The constructor; \<open>jid\<close> is the identifier \<open>generateEventId()\<close> returns, \<open>now\<close> the clock,
  \<open>addr\<close> the address of the fresh, empty metadata object.
\<close>

definition Journey_new :: "string \<Rightarrow> int \<Rightarrow> nat \<Rightarrow> string \<Rightarrow> Journey" where
  "Journey_new jid now addr nm =
     \<lparr>j_id = jid, j_name = nm, j_startedAt = DateMs now, j_metadata = addr, j_user = None,
      j_steps = [], j_currentStep = None, j_completed = False, j_failed = False\<rparr>"

text \<open>Assignment to the fields of the step object a reference points to.\<close>

definition finish_step :: "StepStatus \<Rightarrow> int \<Rightarrow> nat \<Rightarrow> JourneyStep list \<Rightarrow> JourneyStep list" where
  "finish_step st now i steps =
     (if i < length steps
      then steps[i := (steps ! i)\<lparr>s_status := st, s_endedAt := Some (DateMs now)\<rparr>]
      else steps)"

text \<open>\<open>this.currentStep && this.currentStep.status === 'in_progress'\<close>\<close>

definition current_in_progress :: "Journey \<Rightarrow> bool" where
  "current_in_progress j =
     (case j_currentStep j of
        None \<Rightarrow> False
      | Some i \<Rightarrow> i < length (j_steps j) \<and> s_status (j_steps j ! i) = in_progress)"

text \<open>
  \<open>startStep\<close> reads the clock twice: \<open>t_end\<close> stamps the step it closes, \<open>t_start\<close> the
  step it opens. It returns the journey and the handle of the new step.
\<close>

definition startStep ::
  "Journey \<Rightarrow> int \<Rightarrow> int \<Rightarrow> string \<Rightarrow> string option \<Rightarrow> Journey \<times> nat" where
  "startStep j t_end t_start nm category =
     (let steps1 = (if current_in_progress j
                    then finish_step completed t_end (the (j_currentStep j)) (j_steps j)
                    else j_steps j);
          step = \<lparr>s_name = nm, s_category = category, s_startedAt = DateMs t_start,
                  s_endedAt = None, s_status = in_progress, s_data = []\<rparr>
      in (j\<lparr>j_steps := steps1 @ [step], j_currentStep := Some (length steps1)\<rparr>,
          length steps1))"

definition Journey_complete :: "Journey \<Rightarrow> int \<Rightarrow> Journey" where
  "Journey_complete j now =
     (if current_in_progress j
      then j\<lparr>j_steps := finish_step completed now (the (j_currentStep j)) (j_steps j),
             j_completed := True\<rparr>
      else j\<lparr>j_completed := True\<rparr>)"

definition Journey_fail :: "Journey \<Rightarrow> int \<Rightarrow> Journey" where
  "Journey_fail j now =
     (if current_in_progress j
      then j\<lparr>j_steps := finish_step failed now (the (j_currentStep j)) (j_steps j),
             j_failed := True\<rparr>
      else j\<lparr>j_failed := True\<rparr>)"

definition isComplete :: "Journey \<Rightarrow> bool" where
  "isComplete j = (j_completed j \<or> j_failed j)"

text \<open>\<open>Step.complete\<close> and \<open>Step.fail\<close> on the handle \<open>h\<close>: no guard on the current status.\<close>

definition Step_complete :: "Journey \<Rightarrow> nat \<Rightarrow> int \<Rightarrow> Journey" where
  "Step_complete j h now = j\<lparr>j_steps := finish_step completed now h (j_steps j)\<rparr>"

definition Step_fail :: "Journey \<Rightarrow> nat \<Rightarrow> int \<Rightarrow> Journey" where
  "Step_fail j h now = j\<lparr>j_steps := finish_step failed now h (j_steps j)\<rparr>"

definition Step_setData :: "Journey \<Rightarrow> nat \<Rightarrow> string \<Rightarrow> jsval \<Rightarrow> Journey" where
  "Step_setData j h k v =
     (if h < length (j_steps j)
      then j\<lparr>j_steps := (j_steps j)[h := (j_steps j ! h)
                \<lparr>s_data := AList.update k v (s_data (j_steps j ! h))\<rparr>]\<rparr>
      else j)"

text \<open>The calls a program can make on a journey and on the step handles it was given.\<close>

datatype JourneyCall =
    Call_startStep int int string "string option"
  | Call_Step_complete nat int
  | Call_Step_fail nat int
  | Call_Step_setData nat string jsval
  | Call_complete int
  | Call_fail int

fun journey_call :: "Journey \<Rightarrow> JourneyCall \<Rightarrow> Journey" where
  "journey_call j (Call_startStep t_end t_start nm category) =
     fst (startStep j t_end t_start nm category)"
| "journey_call j (Call_Step_complete h now) = Step_complete j h now"
| "journey_call j (Call_Step_fail h now) = Step_fail j h now"
| "journey_call j (Call_Step_setData h k v) = Step_setData j h k v"
| "journey_call j (Call_complete now) = Journey_complete j now"
| "journey_call j (Call_fail now) = Journey_fail j now"

definition journey_calls :: "Journey \<Rightarrow> JourneyCall list \<Rightarrow> Journey" where
  "journey_calls j calls = foldl journey_call j calls"

definition in_progress_steps :: "Journey \<Rightarrow> JourneyStep list" where
  "in_progress_steps j = filter (\<lambda>s. s_status s = in_progress) (j_steps j)"

section \<open>JSON.stringify and JSON.parse\<close>

text \<open>
  \<open>Date.prototype.toJSON\<close>: the ISO string of a valid date, \<open>null\<close> for an invalid one.
  \<open>new Date(x)\<close> for the two values that can come back: a string is parsed, \<open>null\<close>
  converts to the number 0, the epoch.
\<close>

definition date_toJSON :: "Date \<Rightarrow> string option" where
  "date_toJSON d = (case d of DateMs t \<Rightarrow> Some (toISOString t) | InvalidDate \<Rightarrow> None)"

definition newDate :: "string option \<Rightarrow> Date" where
  "newDate x = (case x of Some s \<Rightarrow> parseDate s | None \<Rightarrow> DateMs 0)"

text \<open>
  What \<open>JSON.stringify\<close> writes for a value, as the tree \<open>JSON.parse\<close> reads back; \<open>None\<close>
  is \<open>undefined\<close>: a property holding it is left out, an array element holding it
  becomes \<open>null\<close>. NaN is written as \<open>null\<close>, a date as its \<open>toJSON\<close>. On a big
  integer and on a cyclic value \<open>JSON.stringify\<close> throws instead of writing
  (\<open>stringify_error\<close> below); \<open>toJSON\<close> has no equation for them.
\<close>

fun toJSON :: "jsval \<Rightarrow> json option"
  and toJSON_elements :: "jsval list \<Rightarrow> json list"
  and toJSON_properties :: "(string \<times> jsval) list \<Rightarrow> (string \<times> json) list" where
  "toJSON VUndefined = None"
| "toJSON VNull = Some JNull"
| "toJSON (VBool b) = Some (JBool b)"
| "toJSON (VNum n) = Some (JNum n)"
| "toJSON VNaN = Some JNull"
| "toJSON (VStr s) = Some (JStr s)"
| "toJSON (VDate d) = Some (case date_toJSON d of None \<Rightarrow> JNull | Some s \<Rightarrow> JStr s)"
| "toJSON (VArr xs) = Some (JArr (toJSON_elements xs))"
| "toJSON (VObj ps) = Some (JObj (toJSON_properties ps))"
| "toJSON_elements [] = []"
| "toJSON_elements (x # xs) = (case toJSON x of None \<Rightarrow> JNull | Some j \<Rightarrow> j) # toJSON_elements xs"
| "toJSON_properties [] = []"
| "toJSON_properties (p # ps) =
     (case toJSON (snd p) of
        None \<Rightarrow> toJSON_properties ps
      | Some j \<Rightarrow> (fst p, j) # toJSON_properties ps)"

text \<open>
  The \<open>TypeError\<close> \<open>JSON.stringify\<close> throws on a value, if it does: that of the first big
  integer or cyclic value it meets, in the order of the properties and elements (the
  messages are the engine's).
\<close>

fun stringify_error :: "jsval \<Rightarrow> thrown option"
  and stringify_error_elements :: "jsval list \<Rightarrow> thrown option"
  and stringify_error_properties :: "(string \<times> jsval) list \<Rightarrow> thrown option" where
  "stringify_error (VBigInt n) = Some (ErrorObj ''Do not know how to serialize a BigInt'')"
| "stringify_error VCyclic = Some (ErrorObj ''Converting circular structure to JSON'')"
| "stringify_error (VArr xs) = stringify_error_elements xs"
| "stringify_error (VObj ps) = stringify_error_properties ps"
| "stringify_error VUndefined = None"
| "stringify_error VNull = None"
| "stringify_error (VBool b) = None"
| "stringify_error (VNum n) = None"
| "stringify_error VNaN = None"
| "stringify_error (VStr s) = None"
| "stringify_error (VDate d) = None"
| "stringify_error_elements [] = None"
| "stringify_error_elements (x # xs) =
     (case stringify_error x of Some err \<Rightarrow> Some err | None \<Rightarrow> stringify_error_elements xs)"
| "stringify_error_properties [] = None"
| "stringify_error_properties (p # ps) =
     (case stringify_error (snd p) of Some err \<Rightarrow> Some err | None \<Rightarrow> stringify_error_properties ps)"

text \<open>The first error of a list of outcomes.\<close>

fun first_error :: "thrown option list \<Rightarrow> thrown option" where
  "first_error [] = None"
| "first_error (Some err # rest) = Some err"
| "first_error (None # rest) = first_error rest"

text \<open>The value \<open>JSON.parse\<close> returns for a tree.\<close>

fun ofJSON :: "json \<Rightarrow> jsval"
  and ofJSON_elements :: "json list \<Rightarrow> jsval list"
  and ofJSON_properties :: "(string \<times> json) list \<Rightarrow> (string \<times> jsval) list" where
  "ofJSON JNull = VNull"
| "ofJSON (JBool b) = VBool b"
| "ofJSON (JNum n) = VNum n"
| "ofJSON (JStr s) = VStr s"
| "ofJSON (JArr xs) = VArr (ofJSON_elements xs)"
| "ofJSON (JObj ps) = VObj (ofJSON_properties ps)"
| "ofJSON_elements [] = []"
| "ofJSON_elements (x # xs) = ofJSON x # ofJSON_elements xs"
| "ofJSON_properties [] = []"
| "ofJSON_properties (p # ps) = (fst p, ofJSON (snd p)) # ofJSON_properties ps"

text \<open>The decimal digits of a number, as a template literal writes it.\<close>

fun show_nat :: "nat \<Rightarrow> string" where
  "show_nat n = (if n < 10 then [digit_char n] else show_nat (n div 10) @ [digit_char (n mod 10)])"

declare show_nat.simps [simp del]


section \<open>Events in memory and in storage\<close>

text \<open>
  The metadata object of a journey context: the live object of a journey, by its address in
  the object store, or an object nothing else refers to (as \<open>JSON.parse\<close> builds).
\<close>

datatype metadata_ref = Live nat | Own "(string \<times> jsval) list"

type_synonym objects = "nat \<Rightarrow> (string \<times> jsval) list"

definition read_metadata :: "objects \<Rightarrow> metadata_ref \<Rightarrow> (string \<times> jsval) list" where
  "read_metadata objs r = (case r of Live a \<Rightarrow> objs a | Own ps \<Rightarrow> ps)"

type_synonym Event = "(Date, jsval, metadata_ref) TelemetryEvent"

text \<open>An element of the parsed storage image: what \<open>JSON.stringify\<close> leaves of an event.\<close>

type_synonym StoredEvent = "(string option, json, (string \<times> json) list) TelemetryEvent"

text \<open>
  The \<open>TypeError\<close> \<open>JSON.stringify\<close> throws on an event, or on the object
  \<open>serializeEvent\<close> makes of it, if it does. The values typed \<open>unknown\<close> are met in the
  order of the properties: the user's data, the extras, the data of each breadcrumb, the
  journey metadata, read in the store.
\<close>

definition data_error :: "(string \<times> jsval) list option \<Rightarrow> thrown option" where
  "data_error d = (case d of None \<Rightarrow> None | Some ps \<Rightarrow> stringify_error_properties ps)"

definition event_stringify_error ::
  "objects \<Rightarrow> ('d, jsval, metadata_ref) TelemetryEvent \<Rightarrow> thrown option" where
  "event_stringify_error objs e =
     first_error
       (data_error (case user e of None \<Rightarrow> None | Some u \<Rightarrow> u_data u)
        # stringify_error_properties (extra e)
        # map data_error (map b_data (breadcrumbs e))
        @ [case journey e of
             None \<Rightarrow> None
           | Some c \<Rightarrow> stringify_error_properties (read_metadata objs (jc_metadata c))])"

text \<open>What \<open>JSON.stringify\<close> writes of an event on which it does not throw.\<close>

definition stringify_breadcrumb :: "(Date, jsval) Breadcrumb \<Rightarrow> (string option, json) Breadcrumb" where
  "stringify_breadcrumb b =
     \<lparr>b_timestamp = date_toJSON (b_timestamp b), b_category = b_category b,
      b_message = b_message b, b_level = b_level b,
      b_data = map_option toJSON_properties (b_data b)\<rparr>"

definition stringify_user :: "jsval User \<Rightarrow> json User" where
  "stringify_user u =
     \<lparr>u_id = u_id u, u_email = u_email u, u_name = u_name u,
      u_data = map_option toJSON_properties (u_data u)\<rparr>"

definition stringify_journey ::
  "objects \<Rightarrow> (Date, metadata_ref) JourneyContext
     \<Rightarrow> (string option, (string \<times> json) list) JourneyContext" where
  "stringify_journey objs c =
     \<lparr>jc_journeyId = jc_journeyId c, jc_name = jc_name c, jc_currentStep = jc_currentStep c,
      jc_startedAt = date_toJSON (jc_startedAt c),
      jc_metadata = toJSON_properties (read_metadata objs (jc_metadata c))\<rparr>"

definition stringify_event :: "objects \<Rightarrow> Event \<Rightarrow> StoredEvent" where
  "stringify_event objs e =
     \<lparr>eventId = eventId e, timestamp = date_toJSON (timestamp e), level = level e,
      message = message e, exception = exception e,
      user = map_option stringify_user (user e), tags = tags e,
      extra = toJSON_properties (extra e),
      breadcrumbs = map stringify_breadcrumb (breadcrumbs e),
      journey = map_option (stringify_journey objs) (journey e),
      environment = environment e, appVersion = appVersion e, platform = platform e\<rparr>"

section \<open>queue.ts\<close>

text \<open>
  The item under the storage key: there is no \<open>localStorage\<close>, or no item, or text that
  \<open>JSON.parse\<close> rejects, or the image an earlier \<open>save\<close> wrote. Text that parses to
  something no \<open>save\<close> writes is not modelled.
\<close>

datatype storage = NoLocalStorage | NoItem | Unparseable | Item "StoredEvent list"

definition deserializeEvent :: "StoredEvent \<Rightarrow> Event" where
  "deserializeEvent d =
     \<lparr>eventId = eventId d, timestamp = newDate (timestamp d), level = level d,
      message = message d, exception = exception d,
      user = map_option
               (\<lambda>u. \<lparr>u_id = u_id u, u_email = u_email u, u_name = u_name u,
                      u_data = map_option ofJSON_properties (u_data u)\<rparr>) (user d),
      tags = tags d,
      extra = ofJSON_properties (extra d),
      breadcrumbs = map (\<lambda>b. \<lparr>b_timestamp = newDate (b_timestamp b), b_category = b_category b,
                                b_message = b_message b, b_level = b_level b,
                                b_data = map_option ofJSON_properties (b_data b)\<rparr>)
                        (breadcrumbs d),
      journey = map_option
                  (\<lambda>c. \<lparr>jc_journeyId = jc_journeyId c, jc_name = jc_name c,
                         jc_currentStep = jc_currentStep c,
                         jc_startedAt = newDate (jc_startedAt c),
                         jc_metadata = Own (ofJSON_properties (jc_metadata c))\<rparr>) (journey d),
      environment = environment d, appVersion = appVersion d, platform = platform d\<rparr>"

record OfflineQueue =
  maxSize :: int
  queue :: "Event list"

text \<open>\<open>load\<close>: every failure is caught and leaves the queue empty.\<close>

definition load :: "storage \<Rightarrow> Event list" where
  "load st = (case st of Item parsed \<Rightarrow> map deserializeEvent parsed | _ \<Rightarrow> [])"

text \<open>
  \<open>save\<close>: the item the storage holds afterwards. The store is needed to read the metadata
  objects the queued events refer to. When \<open>JSON.stringify\<close> throws on a queued event
  the error is caught and the item stays as it was. A write that the storage refuses is
  caught as well; that case is left out.
\<close>

definition save :: "objects \<Rightarrow> OfflineQueue \<Rightarrow> storage \<Rightarrow> storage" where
  "save objs q st =
     (case st of NoLocalStorage \<Rightarrow> NoLocalStorage
      | _ \<Rightarrow> if list_all (\<lambda>e. event_stringify_error objs e = None) (queue q)
             then Item (map (stringify_event objs) (queue q)) else st)"

definition OfflineQueue_new :: "int \<Rightarrow> storage \<Rightarrow> OfflineQueue" where
  "OfflineQueue_new n st = \<lparr>maxSize = n, queue = load st\<rparr>"

text \<open>
  The operations on the array in memory. Each mutator ends with \<open>this.save()\<close>, which
  rewrites the storage item from the array and changes nothing in memory; the item is read
  by the constructor only. \<open>shift\<close> on an empty array does nothing.
\<close>

definition enqueue :: "OfflineQueue \<Rightarrow> Event \<Rightarrow> OfflineQueue" where
  "enqueue q event =
     (let shifted = (if int (length (queue q)) \<ge> maxSize q then drop 1 (queue q) else queue q)
      in q\<lparr>queue := shifted @ [event]\<rparr>)"

definition queue_getAll :: "OfflineQueue \<Rightarrow> Event list" where
  "queue_getAll q = queue q"

definition queue_remove :: "OfflineQueue \<Rightarrow> string \<Rightarrow> OfflineQueue" where
  "queue_remove q eid = q\<lparr>queue := filter (\<lambda>e. eventId e \<noteq> eid) (queue q)\<rparr>"

definition queue_clear :: "OfflineQueue \<Rightarrow> OfflineQueue" where
  "queue_clear q = q\<lparr>queue := []\<rparr>"

definition queue_size :: "OfflineQueue \<Rightarrow> nat" where
  "queue_size q = length (queue q)"

definition isEmpty :: "OfflineQueue \<Rightarrow> bool" where
  "isEmpty q = (length (queue q) = 0)"

definition enqueue_all :: "OfflineQueue \<Rightarrow> Event list \<Rightarrow> OfflineQueue" where
  "enqueue_all q events = foldl enqueue q events"

section \<open>transport.ts\<close>

text \<open>
  A response: its status, and what \<open>await response.text()\<close> and \<open>await response.json()\<close>
  give, a value or a rejection. \<open>fetch\<close> itself resolves to a response or rejects.
\<close>

record Response =
  rs_status :: nat
  rs_text :: "thrown + string"
  rs_json :: "thrown + json"

datatype fetch_result = Rejected thrown | Resolved Response

definition ok :: "Response \<Rightarrow> bool" where
  "ok r = (200 \<le> rs_status r \<and> rs_status r \<le> 299)"

text \<open>\<open>toISOString\<close> on a date object throws a \<open>RangeError\<close> when the date is invalid.\<close>

definition date_toISOString :: "Date \<Rightarrow> thrown + string" where
  "date_toISOString d =
     (case d of DateMs t \<Rightarrow> Inr (toISOString t) | InvalidDate \<Rightarrow> Inl (ErrorObj ''Invalid time value''))"

fun serialize_breadcrumbs ::
  "(Date, jsval) Breadcrumb list \<Rightarrow> thrown + (string, jsval) Breadcrumb list" where
  "serialize_breadcrumbs [] = Inr []"
| "serialize_breadcrumbs (b # bs) =
     (case date_toISOString (b_timestamp b) of
        Inl x \<Rightarrow> Inl x
      | Inr s \<Rightarrow>
          (case serialize_breadcrumbs bs of
             Inl x \<Rightarrow> Inl x
           | Inr rest \<Rightarrow>
               Inr (\<lparr>b_timestamp = s, b_category = b_category b, b_message = b_message b,
                      b_level = b_level b, b_data = b_data b\<rparr> # rest)))"

definition serialize_journey ::
  "(Date, metadata_ref) JourneyContext option
     \<Rightarrow> thrown + (string, metadata_ref) JourneyContext option" where
  "serialize_journey j =
     (case j of
        None \<Rightarrow> Inr None
      | Some c \<Rightarrow>
          (case date_toISOString (jc_startedAt c) of
             Inl x \<Rightarrow> Inl x
           | Inr s \<Rightarrow>
               Inr (Some \<lparr>jc_journeyId = jc_journeyId c, jc_name = jc_name c,
                          jc_currentStep = jc_currentStep c, jc_startedAt = s,
                          jc_metadata = jc_metadata c\<rparr>)))"

definition serializeEvent :: "Event \<Rightarrow> thrown + (string, jsval, metadata_ref) TelemetryEvent" where
  "serializeEvent event =
     (case date_toISOString (timestamp event) of
        Inl x \<Rightarrow> Inl x
      | Inr ts \<Rightarrow>
          (case serialize_breadcrumbs (breadcrumbs event) of
             Inl x \<Rightarrow> Inl x
           | Inr bs \<Rightarrow>
               (case serialize_journey (journey event) of
                  Inl x \<Rightarrow> Inl x
                | Inr j \<Rightarrow>
                    Inr \<lparr>eventId = eventId event, timestamp = ts, level = level event,
                         message = message event, exception = exception event,
                         user = user event, tags = tags event, extra = extra event,
                         breadcrumbs = bs, journey = j, environment = environment event,
                         appVersion = appVersion event, platform = platform event\<rparr>)))"

text \<open>
  \<open>result.eventId\<close> on the parsed body: reading a property of \<open>null\<close> throws a
  \<open>TypeError\<close> (the message is the engine's), an object gives the property or
  \<open>undefined\<close>, every other value gives \<open>undefined\<close>. A parsed object has each key once.
\<close>

definition result_eventId :: "json \<Rightarrow> thrown + json option" where
  "result_eventId result =
     (case result of
        JNull \<Rightarrow> Inl (ErrorObj ''Cannot read properties of null (reading 'eventId')'')
      | JObj ps \<Rightarrow> Inr (map_of ps ''eventId'')
      | _ \<Rightarrow> Inr None)"

text \<open>
  The \<open>try\<close> block of \<open>send\<close>; \<open>net\<close> is what the \<open>fetch\<close> of this call does, and
  \<open>objs\<close> the object store at the call. The argument of \<open>fetch\<close> is evaluated first:
  \<open>serializeEvent\<close> and then \<open>JSON.stringify\<close> on its result can throw, and then nothing
  is posted.
\<close>

definition send_try :: "objects \<Rightarrow> fetch_result \<Rightarrow> Event \<Rightarrow> thrown + SendResult" where
  "send_try objs net event =
     (case serializeEvent event of
        Inl x \<Rightarrow> Inl x
      | Inr body \<Rightarrow>
          (case event_stringify_error objs body of
             Some x \<Rightarrow> Inl x
           | None \<Rightarrow>
               (case net of
                  Rejected x \<Rightarrow> Inl x
                | Resolved response \<Rightarrow>
                    if \<not> ok response then
                      (case rs_text response of
                         Inl x \<Rightarrow> Inl x
                       | Inr errorText \<Rightarrow>
                           Inr \<lparr>r_success = False, r_eventId = None,
                                r_error = Some (''HTTP '' @ show_nat (rs_status response) @ '': '' @ errorText),
                                r_queued = None\<rparr>)
                    else
                      (case rs_json response of
                         Inl x \<Rightarrow> Inl x
                       | Inr result \<Rightarrow>
                           (case result_eventId result of
                              Inl x \<Rightarrow> Inl x
                            | Inr v \<Rightarrow>
                                Inr \<lparr>r_success = True,
                                     r_eventId = Some (case v of
                                                         None \<Rightarrow> JStr (eventId event)
                                                       | Some JNull \<Rightarrow> JStr (eventId event)
                                                       | Some j \<Rightarrow> j),
                                     r_error = None, r_queued = None\<rparr>)))))"

text \<open>\<open>send\<close>: the \<open>try\<close> block, and the \<open>catch\<close> clause turning what was thrown into a result.\<close>

definition send :: "objects \<Rightarrow> fetch_result \<Rightarrow> Event \<Rightarrow> SendResult" where
  "send objs net event =
     (case send_try objs net event of
        Inr r \<Rightarrow> r
      | Inl err \<Rightarrow>
          \<lparr>r_success = False, r_eventId = None,
           r_error = Some (case err of ErrorObj m \<Rightarrow> m | NonError \<Rightarrow> ''Unknown error''),
           r_queued = None\<rparr>)"

definition isOnline :: "fetch_result \<Rightarrow> bool" where
  "isOnline net = (case net of Rejected x \<Rightarrow> False | Resolved response \<Rightarrow> ok response)"


section \<open>A journey and its metadata object in the store\<close>

text \<open>
  The heap holds the journey objects and the metadata objects, each kind in allocation
  order; an address is an index. Reading an address that was never allocated gives the
  empty object.
\<close>

record heap =
  h_journeys :: "Journey list"
  h_objects :: "(string \<times> jsval) list list"

definition read_object :: "heap \<Rightarrow> objects" where
  "read_object h a = (if a < length (h_objects h) then h_objects h ! a else [])"

definition on_journey :: "heap \<Rightarrow> nat \<Rightarrow> (Journey \<Rightarrow> Journey) \<Rightarrow> heap" where
  "on_journey h a f =
     (if a < length (h_journeys h) then h\<lparr>h_journeys := (h_journeys h)[a := f (h_journeys h ! a)]\<rparr>
      else h)"

definition Journey_setUser ::
  "Journey \<Rightarrow> string \<Rightarrow> string option \<Rightarrow> (string \<times> jsval) list option \<Rightarrow> Journey" where
  "Journey_setUser j uid email dat =
     j\<lparr>j_user := Some \<lparr>u_id = uid, u_email = email, u_name = None, u_data = dat\<rparr>\<rparr>"

text \<open>\<open>this.metadata[key] = value\<close>: an assignment to the one metadata object of the journey.\<close>

definition Journey_setMetadata :: "heap \<Rightarrow> Journey \<Rightarrow> string \<Rightarrow> jsval \<Rightarrow> heap" where
  "Journey_setMetadata h j k v =
     (if j_metadata j < length (h_objects h)
      then h\<lparr>h_objects := (h_objects h)[j_metadata j := AList.update k v (h_objects h ! j_metadata j)]\<rparr>
      else h)"

text \<open>\<open>getContext\<close>: a new object; its \<open>metadata\<close> is \<open>this.metadata\<close>, the same object.\<close>

definition getContext :: "Journey \<Rightarrow> (Date, metadata_ref) JourneyContext" where
  "getContext j =
     \<lparr>jc_journeyId = j_id j, jc_name = j_name j,
      jc_currentStep = (case j_currentStep j of
                          None \<Rightarrow> None
                        | Some i \<Rightarrow> if i < length (j_steps j) then Some (s_name (j_steps j ! i)) else None),
      jc_startedAt = j_startedAt j,
      jc_metadata = Live (j_metadata j)\<rparr>"

definition getUser :: "Journey \<Rightarrow> jsval User option" where
  "getUser j = j_user j"

section \<open>config.ts\<close>

datatype hook_result = HookBool bool | HookEvent Event

text \<open>
  \<open>TelemetryOptions\<close> as the caller writes them and as \<open>resolveOptions\<close> completes them
  (the DSN, the base URL and the debug flag, which only address and log, are left out).
  The hook is user code: it returns a boolean or an event, or throws.
\<close>

record TelemetryOptions =
  to_environment :: "string option"
  to_appVersion :: "string option"
  to_sampleRate :: "real option"
  to_maxBreadcrumbs :: "int option"
  to_beforeSend :: "(Event \<Rightarrow> thrown + hook_result) option"
  to_enableOfflineQueue :: "bool option"
  to_maxOfflineQueueSize :: "int option"

record Options =
  o_environment :: string
  o_appVersion :: string
  o_sampleRate :: real
  o_maxBreadcrumbs :: int
  o_beforeSend :: "Event \<Rightarrow> thrown + hook_result"
  o_enableOfflineQueue :: bool
  o_maxOfflineQueueSize :: int

definition resolveOptions :: "TelemetryOptions \<Rightarrow> Options" where
  "resolveOptions options =
     \<lparr>o_environment = (case to_environment options of None \<Rightarrow> ''production'' | Some e \<Rightarrow> e),
      o_appVersion = (case to_appVersion options of None \<Rightarrow> ''0.0.0'' | Some v \<Rightarrow> v),
      o_sampleRate = max 0 (min 1 (case to_sampleRate options of None \<Rightarrow> 1 | Some r \<Rightarrow> r)),
      o_maxBreadcrumbs = (case to_maxBreadcrumbs options of None \<Rightarrow> 100 | Some n \<Rightarrow> n),
      o_beforeSend = (case to_beforeSend options of None \<Rightarrow> (\<lambda>e. Inr (HookBool True)) | Some f \<Rightarrow> f),
      o_enableOfflineQueue = (case to_enableOfflineQueue options of None \<Rightarrow> True | Some b \<Rightarrow> b),
      o_maxOfflineQueueSize = (case to_maxOfflineQueueSize options of None \<Rightarrow> 500 | Some n \<Rightarrow> n)\<rparr>"

section \<open>client.ts\<close>

record TelemetryClient =
  c_options :: Options
  c_queue :: "OfflineQueue option"
  c_breadcrumbs :: BreadcrumbManager
  c_tags :: "(string \<times> string) list"
  c_extra :: "(string \<times> jsval) list"
  c_user :: "jsval User option"
  c_currentJourney :: "nat option"

definition TelemetryClient_new :: "TelemetryOptions \<Rightarrow> storage \<Rightarrow> TelemetryClient" where
  "TelemetryClient_new options st =
     (let opts = resolveOptions options
      in \<lparr>c_options = opts,
          c_queue = (if o_enableOfflineQueue opts
                     then Some (OfflineQueue_new (o_maxOfflineQueueSize opts) st) else None),
          c_breadcrumbs = BreadcrumbManager_new (o_maxBreadcrumbs opts),
          c_tags = [], c_extra = [], c_user = None, c_currentJourney = None\<rparr>)"

definition setUser ::
  "TelemetryClient \<Rightarrow> string \<Rightarrow> string option \<Rightarrow> (string \<times> jsval) list option \<Rightarrow> TelemetryClient" where
  "setUser c uid email dat =
     c\<lparr>c_user := Some \<lparr>u_id = uid, u_email = email, u_name = None, u_data = dat\<rparr>\<rparr>"

definition clearUser :: "TelemetryClient \<Rightarrow> TelemetryClient" where
  "clearUser c = c\<lparr>c_user := None\<rparr>"

definition setTag :: "TelemetryClient \<Rightarrow> string \<Rightarrow> string \<Rightarrow> TelemetryClient" where
  "setTag c k v = c\<lparr>c_tags := AList.update k v (c_tags c)\<rparr>"

definition setExtra :: "TelemetryClient \<Rightarrow> string \<Rightarrow> jsval \<Rightarrow> TelemetryClient" where
  "setExtra c k v = c\<lparr>c_extra := AList.update k v (c_extra c)\<rparr>"

text \<open>
  A \<open>JourneyScope\<close>: the journey it wraps, by address, and the callback it was given. The
  client passes \<open>() => { this.currentJourney = undefined; }\<close>.
\<close>

record JourneyScope =
  sc_journey :: nat
  sc_onComplete :: "(TelemetryClient \<Rightarrow> TelemetryClient) option"

text \<open>\<open>startJourney(name)\<close>; \<open>jid\<close> is the generated identifier, \<open>now\<close> the clock.\<close>

definition startJourney ::
  "TelemetryClient \<times> heap \<Rightarrow> string \<Rightarrow> int \<Rightarrow> string \<Rightarrow> (TelemetryClient \<times> heap) \<times> JourneyScope" where
  "startJourney ch jid now nm =
     (let c = fst ch; h = snd ch;
          a = length (h_journeys h);
          j0 = Journey_new jid now (length (h_objects h)) nm;
          j1 = (case c_user c of
                  None \<Rightarrow> j0
                | Some u \<Rightarrow> Journey_setUser j0 (u_id u) (u_email u) (u_data u))
      in ((c\<lparr>c_currentJourney := Some a\<rparr>,
           h\<lparr>h_journeys := h_journeys h @ [j1], h_objects := h_objects h @ [[]]\<rparr>),
          \<lparr>sc_journey = a, sc_onComplete = Some (\<lambda>c. c\<lparr>c_currentJourney := None\<rparr>)\<rparr>))"

text \<open>\<open>JourneyScope[Symbol.dispose]\<close>\<close>

definition JourneyScope_dispose ::
  "TelemetryClient \<times> heap \<Rightarrow> JourneyScope \<Rightarrow> int \<Rightarrow> TelemetryClient \<times> heap" where
  "JourneyScope_dispose ch scope now =
     (let c = fst ch; h = snd ch;
          h1 = on_journey h (sc_journey scope)
                 (\<lambda>j. if \<not> isComplete j then Journey_complete j now else j)
      in (case sc_onComplete scope of None \<Rightarrow> c | Some onComplete \<Rightarrow> onComplete c, h1))"

text \<open>A \<open>StepScope\<close> wraps a \<open>Step\<close>: the journey's address and the step's handle.\<close>

record StepScope =
  ss_journey :: nat
  ss_step :: nat

definition client_startStep ::
  "TelemetryClient \<times> heap \<Rightarrow> int \<Rightarrow> int \<Rightarrow> string \<Rightarrow> string option
     \<Rightarrow> thrown + (heap \<times> StepScope)" where
  "client_startStep ch t_end t_start nm category =
     (case c_currentJourney (fst ch) of
        None \<Rightarrow> Inl (ErrorObj ''No active journey. Call startJourney() first.'')
      | Some a \<Rightarrow>
          Inr (on_journey (snd ch) a (\<lambda>j. fst (startStep j t_end t_start nm category)),
               \<lparr>ss_journey = a,
                ss_step = snd (startStep (h_journeys (snd ch) ! a) t_end t_start nm category)\<rparr>))"

definition StepScope_dispose :: "heap \<Rightarrow> StepScope \<Rightarrow> int \<Rightarrow> heap" where
  "StepScope_dispose h scope now =
     on_journey h (ss_journey scope)
       (\<lambda>j. if ss_step scope < length (j_steps j) \<and> s_status (j_steps j ! ss_step scope) = in_progress
            then Step_complete j (ss_step scope) now else j)"

text \<open>
  \<open>createEvent\<close>; \<open>eid\<close> is the generated identifier, \<open>now\<close> the clock and \<open>pf\<close> what
  \<open>getPlatformInfo\<close> finds. The tags, the extras and the breadcrumb array are copied; the
  journey context is what \<open>getContext\<close> returns.
\<close>

definition createEvent ::
  "TelemetryClient \<times> heap \<Rightarrow> string \<Rightarrow> int \<Rightarrow> PlatformInfo \<Rightarrow> SeverityLevel \<Rightarrow> string option
     \<Rightarrow> ExceptionInfo option \<Rightarrow> Event" where
  "createEvent ch eid now pf lvl msg exc =
     (let c = fst ch; h = snd ch;
          current = (case c_currentJourney c of
                       None \<Rightarrow> None
                     | Some a \<Rightarrow> if a < length (h_journeys h) then Some (h_journeys h ! a) else None)
      in \<lparr>eventId = eid, timestamp = DateMs now, level = lvl, message = msg, exception = exc,
          user = (case (case current of None \<Rightarrow> None | Some j \<Rightarrow> getUser j) of
                    None \<Rightarrow> c_user c
                  | Some u \<Rightarrow> Some u),
          tags = c_tags c, extra = c_extra c,
          breadcrumbs = getAll (c_breadcrumbs c),
          journey = map_option getContext current,
          environment = Some (o_environment (c_options c)),
          appVersion = Some (o_appVersion (c_options c)),
          platform = pf\<rparr>)"

text \<open>What \<open>sendEvent\<close> calls, in order.\<close>

datatype call = BeforeSend Event | TransportSend Event | QueueEnqueue Event

text \<open>
  \<open>sendEvent\<close>; \<open>draw\<close> is the value of \<open>Math.random()\<close> (a double is a real number, and
  the comparison of two doubles is that of the reals) and \<open>net\<close> what the network does
  if \<open>transport.send\<close> is reached, \<open>objs\<close> the object store at the call. A hook that
  throws is not caught. The result comes with the client, whose queue may have grown, and
  the calls made.
\<close>

definition dropped :: "Event \<Rightarrow> SendResult" where
  "dropped event =
     \<lparr>r_success = True, r_eventId = Some (JStr (eventId event)), r_error = None, r_queued = None\<rparr>"

definition sendEvent ::
  "TelemetryClient \<Rightarrow> objects \<Rightarrow> real \<Rightarrow> fetch_result \<Rightarrow> Event
     \<Rightarrow> thrown + (SendResult \<times> TelemetryClient \<times> call list)" where
  "sendEvent c objs draw net event =
     (if draw > o_sampleRate (c_options c) then Inr (dropped event, c, [])
      else
        (case o_beforeSend (c_options c) event of
           Inl x \<Rightarrow> Inl x
         | Inr (HookBool False) \<Rightarrow> Inr (dropped event, c, [BeforeSend event])
         | Inr beforeSendResult \<Rightarrow>
             (let eventToSend = (case beforeSendResult of HookEvent e \<Rightarrow> e | HookBool b \<Rightarrow> event);
                  result = send objs net eventToSend
              in (case c_queue c of
                    Some q \<Rightarrow>
                      if \<not> r_success result
                      then Inr (result\<lparr>r_queued := Some True\<rparr>,
                                c\<lparr>c_queue := Some (enqueue q eventToSend)\<rparr>,
                                [BeforeSend event, TransportSend eventToSend, QueueEnqueue eventToSend])
                      else Inr (result, c, [BeforeSend event, TransportSend eventToSend])
                  | None \<Rightarrow> Inr (result, c, [BeforeSend event, TransportSend eventToSend])))))"

definition captureMessage ::
  "TelemetryClient \<times> heap \<Rightarrow> string \<Rightarrow> int \<Rightarrow> PlatformInfo \<Rightarrow> real \<Rightarrow> fetch_result
     \<Rightarrow> string \<Rightarrow> SeverityLevel option \<Rightarrow> thrown + (SendResult \<times> TelemetryClient \<times> call list)" where
  "captureMessage ch eid now pf draw net msg lvl =
     sendEvent (fst ch) (read_object (snd ch)) draw net
       (createEvent ch eid now pf (case lvl of None \<Rightarrow> Info | Some l \<Rightarrow> l) (Some msg) None)"

text \<open>
  \<open>captureException\<close>; \<open>exc\<close> is what \<open>parseException\<close> makes of the error. The extras of
  the call are laid over the client's.
\<close>

definition captureException ::
  "TelemetryClient \<times> heap \<Rightarrow> string \<Rightarrow> int \<Rightarrow> PlatformInfo \<Rightarrow> real \<Rightarrow> fetch_result
     \<Rightarrow> ExceptionInfo \<Rightarrow> (string \<times> jsval) list option
     \<Rightarrow> thrown + (SendResult \<times> TelemetryClient \<times> call list)" where
  "captureException ch eid now pf draw net exc ext =
     (let event = createEvent ch eid now pf Error (Some (ex_message exc)) (Some exc);
          event1 = (case ext of
                      None \<Rightarrow> event
                    | Some ps \<Rightarrow> event\<lparr>extra := AList.updates (map fst ps) (map snd ps) (extra event)\<rparr>)
      in sendEvent (fst ch) (read_object (snd ch)) draw net event1)"

text \<open>
  The loop of \<open>processQueue\<close> over the snapshot \<open>getAll\<close> returned; \<open>net k\<close> is what the
  network does at the \<open>k\<close>-th \<open>send\<close> of the drain. The queue comes back with the list of the
  events handed to \<open>transport.send\<close>, in order. One drain is followed on its own: no other
  call of the client runs while it awaits the network, so the object store \<open>objs\<close> is the
  same at every \<open>send\<close>.
\<close>

fun processQueue_loop ::
  "objects \<Rightarrow> (nat \<Rightarrow> fetch_result) \<Rightarrow> nat \<Rightarrow> Event list \<Rightarrow> OfflineQueue \<Rightarrow> Event list
     \<Rightarrow> OfflineQueue \<times> Event list" where
  "processQueue_loop objs net k [] q attempted = (q, attempted)"
| "processQueue_loop objs net k (event # events) q attempted =
     (let result = send objs (net k) event;
          q1 = (if r_success result then queue_remove q (eventId event) else q)
      in processQueue_loop objs net (Suc k) events q1 (attempted @ [event]))"

text \<open>\<open>processQueue\<close>; \<open>probe\<close> is what the network does at the \<open>isOnline\<close> request.\<close>

definition processQueue ::
  "TelemetryClient \<Rightarrow> objects \<Rightarrow> fetch_result \<Rightarrow> (nat \<Rightarrow> fetch_result)
     \<Rightarrow> TelemetryClient \<times> Event list" where
  "processQueue c objs probe net =
     (case c_queue c of
        None \<Rightarrow> (c, [])
      | Some q \<Rightarrow>
          if isEmpty q then (c, [])
          else if \<not> isOnline probe then (c, [])
          else (let (q1, attempted) = processQueue_loop objs net 0 (queue_getAll q) q []
                in (c\<lparr>c_queue := Some q1\<rparr>, attempted)))"

definition flush ::
  "TelemetryClient \<Rightarrow> objects \<Rightarrow> fetch_result \<Rightarrow> (nat \<Rightarrow> fetch_result)
     \<Rightarrow> TelemetryClient \<times> Event list" where
  "flush c objs probe net = processQueue c objs probe net"

section \<open>Auxiliary notions for the proofs\<close>

text \<open>The last \<open>n\<close> elements of a list.\<close>

definition lastn :: "nat \<Rightarrow> 'a list \<Rightarrow> 'a list" where
  "lastn n xs = drop (length xs - n) xs"

text \<open>Only the step \<open>currentStep\<close> refers to can be in progress.\<close>

definition journey_inv :: "Journey \<Rightarrow> bool" where
  "journey_inv j \<longleftrightarrow>
     (\<forall>i < length (j_steps j). s_status (j_steps j ! i) = in_progress \<longrightarrow> j_currentStep j = Some i)"

text \<open>Sample data: an event with nothing but an identifier, a time and a message.\<close>

definition plain_event :: "string \<Rightarrow> int \<Rightarrow> Event" where
  "plain_event eid now =
     \<lparr>eventId = eid, timestamp = DateMs now, level = Info, message = Some ''failed to load'',
      exception = None, user = None, tags = [], extra = [], breadcrumbs = [], journey = None,
      environment = Some ''production'', appVersion = Some ''0.0.0'',
      platform = \<lparr>p_name = ''unknown'', p_version = None, p_os = None, p_userAgent = None\<rparr>\<rparr>"

text \<open>
  The events of a snapshot whose \<open>send\<close> succeeds, when \<open>net k\<close> is what the network does
  at the send of the first one.
\<close>

fun delivered :: "objects \<Rightarrow> (nat \<Rightarrow> fetch_result) \<Rightarrow> nat \<Rightarrow> Event list \<Rightarrow> Event list" where
  "delivered objs net k [] = []"
| "delivered objs net k (e # es) =
     (if r_success (send objs (net k) e) then e # delivered objs net (Suc k) es
      else delivered objs net (Suc k) es)"

text \<open>Sample network behaviour: a 200 response with an empty JSON object, and no connection.\<close>

definition accepted :: fetch_result where
  "accepted = Resolved \<lparr>rs_status = 200, rs_text = Inr ''{}'', rs_json = Inr (JObj [])\<rparr>"

definition unreachable :: fetch_result where
  "unreachable = Rejected (ErrorObj ''Failed to fetch'')"

text \<open>No date of the event is invalid: the condition under which \<open>serializeEvent\<close> returns.\<close>

definition valid_dates :: "Event \<Rightarrow> bool" where
  "valid_dates e \<longleftrightarrow>
     timestamp e \<noteq> InvalidDate \<and>
     list_all (\<lambda>b. b_timestamp b \<noteq> InvalidDate) (breadcrumbs e) \<and>
     (case journey e of None \<Rightarrow> True | Some c \<Rightarrow> jc_startedAt c \<noteq> InvalidDate)"

text \<open>
  Neither \<open>serializeEvent\<close> nor \<open>JSON.stringify\<close> throws on the event: the condition
  under which \<open>send\<close> posts it.
\<close>

definition sendable :: "objects \<Rightarrow> Event \<Rightarrow> bool" where
  "sendable objs e \<longleftrightarrow> valid_dates e \<and> event_stringify_error objs e = None"

text \<open>The \<open>eventId\<close> of a response body, unless it is absent or \<open>null\<close>.\<close>

definition server_eventId :: "json \<Rightarrow> json option" where
  "server_eventId body =
     (case body of
        JObj ps \<Rightarrow> (case map_of ps ''eventId'' of Some JNull \<Rightarrow> None | r \<Rightarrow> r)
      | _ \<Rightarrow> None)"

text \<open>The failure result with an error string, and the string the \<open>catch\<close> clause extracts.\<close>

definition failure :: "string \<Rightarrow> SendResult" where
  "failure msg = \<lparr>r_success = False, r_eventId = None, r_error = Some msg, r_queued = None\<rparr>"

definition thrown_message :: "thrown \<Rightarrow> string" where
  "thrown_message x = (case x of ErrorObj m \<Rightarrow> m | NonError \<Rightarrow> ''Unknown error'')"

text \<open>Sample data: a client with the default options whose queue holds the given events.\<close>

definition client_with_queue :: "Event list \<Rightarrow> TelemetryClient" where
  "client_with_queue es =
     (TelemetryClient_new
        \<lparr>to_environment = None, to_appVersion = None, to_sampleRate = None,
         to_maxBreadcrumbs = None, to_beforeSend = None, to_enableOfflineQueue = None,
         to_maxOfflineQueueSize = None\<rparr> NoItem)
       \<lparr>c_queue := Some \<lparr>maxSize = 500, queue = es\<rparr>\<rparr>"

text \<open>Sample data: a client with the given sample rate and hook, the other options by default.\<close>

definition client_with_options :: "real \<Rightarrow> (Event \<Rightarrow> thrown + hook_result) option \<Rightarrow> TelemetryClient" where
  "client_with_options rate hook =
     TelemetryClient_new
        \<lparr>to_environment = None, to_appVersion = None, to_sampleRate = Some rate,
         to_maxBreadcrumbs = None, to_beforeSend = hook, to_enableOfflineQueue = None,
         to_maxOfflineQueueSize = None\<rparr> NoItem"






section \<open>The ISO string of a date parses back to the date\<close>



lemma length_pad [simp]: "length (pad k n) = k"
  by (induction k arbitrary: n) auto



















lemma length_month_lengths [simp]: "length (month_lengths y) = 12"
  by (simp add: month_lengths_def)



section \<open>The breadcrumb buffer\<close>

lemma slice_neg: "0 < n \<Longrightarrow> slice (- int n) xs = drop (length xs - n) xs"
  by (auto simp: slice_def nat_diff_distrib')

lemma add_breadcrumbs:
  "bm_breadcrumbs (add m now msg category lvl dat) =
     (let pushed = bm_breadcrumbs m @ [breadcrumb_of (now, msg, category, lvl, dat)]
      in if int (length pushed) > maxBreadcrumbs m then slice (- maxBreadcrumbs m) pushed else pushed)"
  by (simp add: add_def Let_def)

lemma add_max [simp]: "maxBreadcrumbs (add m now msg category lvl dat) = maxBreadcrumbs m"
  by (simp add: add_def Let_def)

lemma add_all_max [simp]: "maxBreadcrumbs (add_all m calls) = maxBreadcrumbs m"
  by (induction m calls rule: add_all.induct) simp_all

lemma add_all_append: "add_all m (cs @ [c]) = (case c of (now, msg, category, lvl, dat) \<Rightarrow> add (add_all m cs) now msg category lvl dat)"
  by (induction m cs rule: add_all.induct) (auto split: prod.splits)

lemma lastn_snoc: "0 < n \<Longrightarrow> lastn n (lastn n xs @ [b]) = lastn n (xs @ [b])"
proof (cases "length xs < n")
  case True
  then show ?thesis by (simp add: lastn_def)
next
  case False
  assume "0 < n"
  with False have "Suc (length xs) - n = Suc (length xs - n)" by arith
  with False \<open>0 < n\<close> show ?thesis by (simp add: lastn_def)
qed

lemma add_lastn:
  assumes "maxBreadcrumbs m = int n" "0 < n"
  shows "bm_breadcrumbs (add m now msg category lvl dat) =
           lastn n (bm_breadcrumbs m @ [breadcrumb_of (now, msg, category, lvl, dat)])"
  using assms by (simp add: add_breadcrumbs Let_def slice_neg lastn_def del: breadcrumb_of.simps)

lemma add_all_keeps_last:
  assumes "maxBreadcrumbs m = int n" "0 < n" "length (bm_breadcrumbs m) \<le> n"
  shows "bm_breadcrumbs (add_all m calls) = lastn n (bm_breadcrumbs m @ map breadcrumb_of calls)"
  using assms
proof (induction calls rule: rev_induct)
  case Nil
  then show ?case by (simp add: lastn_def)
next
  case (snoc c cs)
  obtain now msg category lvl dat where c: "c = (now, msg, category, lvl, dat)"
    by (cases c) auto
  have ih: "bm_breadcrumbs (add_all m cs) = lastn n (bm_breadcrumbs m @ map breadcrumb_of cs)"
    using snoc by simp
  have "bm_breadcrumbs (add_all m (cs @ [c])) =
          lastn n (bm_breadcrumbs (add_all m cs) @ [breadcrumb_of c])"
    using snoc.prems by (simp add: add_all_append c add_lastn del: breadcrumb_of.simps)
  also have "\<dots> = lastn n ((bm_breadcrumbs m @ map breadcrumb_of cs) @ [breadcrumb_of c])"
    using snoc.prems by (simp only: ih lastn_snoc)
  finally show ?case by simp
qed

lemma add_all_zero:
  "maxBreadcrumbs m = 0 \<Longrightarrow> bm_breadcrumbs (add_all m calls) = bm_breadcrumbs m @ map breadcrumb_of calls"
proof (induction calls rule: rev_induct)
  case Nil
  then show ?case by simp
next
  case (snoc c cs)
  obtain now msg category lvl dat where c: "c = (now, msg, category, lvl, dat)"
    by (cases c) auto
  show ?case using snoc
    by (auto simp: add_all_append c add_breadcrumbs Let_def slice_def simp del: breadcrumb_of.simps)
qed

text \<open>
  C5: after a sequence of \<open>add\<close> calls longer than \<open>maxBreadcrumbs = N\<close>, the snapshot
  has at most \<open>N\<close> entries, the \<open>N\<close> most recent ones in insertion order. For
  \<open>N \<ge> 1\<close> this is \<open>add_all_keeps_last\<close>. With \<open>N = 0\<close> the trim is
  \<open>slice(-0)\<close>, which keeps the whole array: three calls leave three breadcrumbs in a
  buffer whose maximum is zero.
\<close>

theorem add_zero_capacity_keeps_everything:
  "(let m = add_all (BreadcrumbManager_new 0)
              [(1000, ''clicked'', Some UI, None, None),
               (2000, ''GET /cart'', Some HTTP, None, None),
               (3000, ''paid'', None, Some Warning, None)]
    in map b_message (getAll m) = [''clicked'', ''GET /cart'', ''paid''] \<and>
       int (length (getAll m)) > maxBreadcrumbs m)"
  by (simp add: getAll_def add_def BreadcrumbManager_new_def slice_def Let_def)

section \<open>The journey state machine\<close>

lemma at_most_one_filter:
  "(\<And>i k. i < length xs \<Longrightarrow> k < length xs \<Longrightarrow> P (xs ! i) \<Longrightarrow> P (xs ! k) \<Longrightarrow> i = k)
     \<Longrightarrow> length (filter P xs) \<le> 1"
proof (induction xs)
  case Nil
  then show ?case by simp
next
  case (Cons x xs)
  have tl: "length (filter P xs) \<le> 1"
  proof (rule Cons.IH)
    fix i k assume "i < length xs" "k < length xs" "P (xs ! i)" "P (xs ! k)"
    then have "Suc i = Suc k" using Cons.prems [of "Suc i" "Suc k"] by simp
    then show "i = k" by simp
  qed
  show ?case
  proof (cases "P x")
    case False
    with tl show ?thesis by simp
  next
    case True
    have "filter P xs = []"
    proof (rule ccontr)
      assume "filter P xs \<noteq> []"
      then obtain y where "y \<in> set xs" "P y"
        by (auto simp: filter_empty_conv)
      then obtain k where "k < length xs" "P (xs ! k)"
        by (auto simp: in_set_conv_nth)
      with True Cons.prems [of 0 "Suc k"] show False by simp
    qed
    with True show ?thesis by simp
  qed
qed

lemma finish_step_length [simp]: "length (finish_step st now i steps) = length steps"
  by (simp add: finish_step_def)

lemma finish_step_nth:
  "k < length steps \<Longrightarrow>
     finish_step st now i steps ! k =
       (if k = i then (steps ! k)\<lparr>s_status := st, s_endedAt := Some (DateMs now)\<rparr> else steps ! k)"
  by (simp add: finish_step_def nth_list_update)

lemma finish_step_status:
  "k < length steps \<Longrightarrow> st \<noteq> in_progress \<Longrightarrow>
     s_status (finish_step st now i steps ! k) = in_progress \<Longrightarrow>
     s_status (steps ! k) = in_progress \<and> k \<noteq> i"
  by (auto simp: finish_step_nth split: if_splits)

lemma inv_new: "journey_inv (Journey_new jid now addr nm)"
  by (simp add: journey_inv_def Journey_new_def)

lemma inv_startStep: "journey_inv j \<Longrightarrow> journey_inv (fst (startStep j t_end t_start nm category))"
proof -
  assume inv: "journey_inv j"
  define steps1 where "steps1 = (if current_in_progress j
                    then finish_step completed t_end (the (j_currentStep j)) (j_steps j)
                    else j_steps j)"
  have len: "length steps1 = length (j_steps j)" by (simp add: steps1_def)
  have none: "s_status (steps1 ! k) \<noteq> in_progress" if "k < length steps1" for k
  proof
    assume a: "s_status (steps1 ! k) = in_progress"
    show False
    proof (cases "current_in_progress j")
      case True
      then obtain i where i: "j_currentStep j = Some i" "i < length (j_steps j)"
        by (auto simp: current_in_progress_def split: option.splits)
      from True i have s1: "steps1 = finish_step completed t_end i (j_steps j)"
        by (simp add: steps1_def)
      from that len have k: "k < length (j_steps j)" by simp
      have "s_status (j_steps j ! k) = in_progress \<and> k \<noteq> i"
        by (rule finish_step_status [OF k _ a [unfolded s1]]) simp
      moreover from this inv k have "j_currentStep j = Some k"
        unfolding journey_inv_def by blast
      ultimately show False using i by simp
    next
      case False
      with a have b: "s_status (j_steps j ! k) = in_progress" by (simp add: steps1_def)
      from that len have k: "k < length (j_steps j)" by simp
      from inv k b have "j_currentStep j = Some k"
        unfolding journey_inv_def by blast
      with False b k show False by (simp add: current_in_progress_def)
    qed
  qed
  have eq: "fst (startStep j t_end t_start nm category) =
      j\<lparr>j_steps := steps1 @ [\<lparr>s_name = nm, s_category = category, s_startedAt = DateMs t_start,
                  s_endedAt = None, s_status = in_progress, s_data = []\<rparr>],
        j_currentStep := Some (length steps1)\<rparr>"
    by (simp add: startStep_def Let_def steps1_def)
  show ?thesis
    unfolding eq journey_inv_def using none
    by (auto simp: nth_append less_Suc_eq)
qed

lemma inv_finish:
  "journey_inv j \<Longrightarrow> st \<noteq> in_progress \<Longrightarrow> journey_inv (j\<lparr>j_steps := finish_step st now h (j_steps j)\<rparr>)"
  unfolding journey_inv_def
  by (auto simp: finish_step_nth split: if_splits)

lemma inv_flags [simp]:
  "journey_inv (j\<lparr>j_completed := b\<rparr>) = journey_inv j"
  "journey_inv (j\<lparr>j_failed := b\<rparr>) = journey_inv j"
  by (simp_all add: journey_inv_def)

lemma inv_setData: "journey_inv j \<Longrightarrow> journey_inv (Step_setData j h k v)"
proof (cases "h < length (j_steps j)")
  case False
  assume "journey_inv j"
  with False show ?thesis by (simp add: Step_setData_def)
next
  case True
  assume inv: "journey_inv j"
  have "s_status (j_steps (Step_setData j h k v) ! i) = s_status (j_steps j ! i)"
    if "i < length (j_steps j)" for i
    using True that by (simp add: Step_setData_def nth_list_update)
  moreover have "length (j_steps (Step_setData j h k v)) = length (j_steps j)"
    "j_currentStep (Step_setData j h k v) = j_currentStep j"
    by (simp_all add: Step_setData_def)
  ultimately show ?thesis using inv unfolding journey_inv_def by simp
qed

lemma inv_call: "journey_inv j \<Longrightarrow> journey_inv (journey_call j c)"
proof (cases c)
  case (Call_startStep t1 t2 nm cat)
  assume "journey_inv j"
  then show ?thesis using Call_startStep by (simp add: inv_startStep)
next
  case (Call_Step_complete h now)
  assume "journey_inv j"
  then show ?thesis using Call_Step_complete inv_finish [of j completed now h]
    by (simp add: Step_complete_def)
next
  case (Call_Step_fail h now)
  assume "journey_inv j"
  then show ?thesis using Call_Step_fail inv_finish [of j failed now h]
    by (simp add: Step_fail_def)
next
  case (Call_Step_setData h k v)
  assume "journey_inv j"
  then show ?thesis using Call_Step_setData by (simp add: inv_setData)
next
  case (Call_complete now)
  assume "journey_inv j"
  then show ?thesis using Call_complete inv_finish [of j completed now "the (j_currentStep j)"]
    by (simp add: Journey_complete_def)
next
  case (Call_fail now)
  assume "journey_inv j"
  then show ?thesis using Call_fail inv_finish [of j failed now "the (j_currentStep j)"]
    by (simp add: Journey_fail_def)
qed

lemma inv_calls: "journey_inv j \<Longrightarrow> journey_inv (journey_calls j calls)"
  unfolding journey_calls_def
  by (induction calls arbitrary: j) (simp_all add: inv_call)

lemma inv_at_most_one: "journey_inv j \<Longrightarrow> length (in_progress_steps j) \<le> 1"
  unfolding in_progress_steps_def
proof (rule at_most_one_filter)
  fix i k
  assume "journey_inv j" "i < length (j_steps j)" "k < length (j_steps j)"
    "s_status (j_steps j ! i) = in_progress" "s_status (j_steps j ! k) = in_progress"
  then have "j_currentStep j = Some i" "j_currentStep j = Some k"
    unfolding journey_inv_def by blast+
  then show "i = k" by simp
qed

lemma startStep_closes:
  assumes "journey_inv j" "current_in_progress j" "j_currentStep j = Some i"
    and "startStep j t_end t_start nm category = (j', h)"
  shows "s_status (j_steps j' ! i) = completed"
    and "s_endedAt (j_steps j' ! i) = Some (DateMs t_end)"
    and "h = length (j_steps j)" and "j_currentStep j' = Some h"
    and "s_status (j_steps j' ! h) = in_progress"
    and "in_progress_steps j' = [j_steps j' ! h]"
proof -
  from assms(2,3) have i: "i < length (j_steps j)" by (simp add: current_in_progress_def)
  let ?steps1 = "finish_step completed t_end i (j_steps j)"
  let ?step = "\<lparr>s_name = nm, s_category = category, s_startedAt = DateMs t_start,
                  s_endedAt = None, s_status = in_progress, s_data = []\<rparr>"
  from assms(2,3,4) have j': "j' = j\<lparr>j_steps := ?steps1 @ [?step], j_currentStep := Some (length ?steps1)\<rparr>"
    and h: "h = length ?steps1"
    by (auto simp: startStep_def Let_def)
  from i j' show "s_status (j_steps j' ! i) = completed"
    by (simp add: nth_append finish_step_nth)
  from i j' show "s_endedAt (j_steps j' ! i) = Some (DateMs t_end)"
    by (simp add: nth_append finish_step_nth)
  from h show "h = length (j_steps j)" by simp
  from j' h show "j_currentStep j' = Some h" by simp
  from j' h show "s_status (j_steps j' ! h) = in_progress" by (simp add: nth_append)
  have "filter (\<lambda>s. s_status s = in_progress) ?steps1 = []"
  proof (rule ccontr)
    assume "filter (\<lambda>s. s_status s = in_progress) ?steps1 \<noteq> []"
    then obtain k where k: "k < length (j_steps j)" "s_status (?steps1 ! k) = in_progress"
      by (auto simp: filter_empty_conv in_set_conv_nth)
    then have "s_status (j_steps j ! k) = in_progress \<and> k \<noteq> i"
      using finish_step_status [of k "j_steps j" completed t_end i] by simp
    with assms(1,3) k show False by (auto simp: journey_inv_def)
  qed
  with j' h show "in_progress_steps j' = [j_steps j' ! h]"
    by (simp add: in_progress_steps_def nth_append)
qed

text \<open>
  C4: whatever calls are made on a journey and on its step handles, at most one of its steps
  is in progress; and \<open>startStep\<close> on a journey whose current step \<open>i\<close> is in progress
  leaves step \<open>i\<close> completed with the end time \<open>t_end\<close>, and the new step in progress,
  current, and the only step in progress.
\<close>

theorem single_active_step:
  "(let j = journey_calls (Journey_new jid now addr nm) calls in
      length (in_progress_steps j) \<le> 1 \<and>
      (\<forall>i. j_currentStep j = Some i \<and> current_in_progress j \<longrightarrow>
         (let (j', h) = startStep j t_end t_start nm' category in
            s_status (j_steps j' ! i) = completed \<and>
            s_endedAt (j_steps j' ! i) = Some (DateMs t_end) \<and>
            h = length (j_steps j) \<and>
            j_currentStep j' = Some h \<and>
            s_status (j_steps j' ! h) = in_progress \<and>
            in_progress_steps j' = [j_steps j' ! h] \<and>
            length (in_progress_steps j') \<le> 1)))"
proof -
  define j where "j = journey_calls (Journey_new jid now addr nm) calls"
  have inv: "journey_inv j"
    unfolding j_def by (rule inv_calls) (rule inv_new)
  have one: "length (in_progress_steps j) \<le> 1"
    using inv by (rule inv_at_most_one)
  have two: "s_status (j_steps j' ! i) = completed \<and>
            s_endedAt (j_steps j' ! i) = Some (DateMs t_end) \<and>
            h = length (j_steps j) \<and>
            j_currentStep j' = Some h \<and>
            s_status (j_steps j' ! h) = in_progress \<and>
            in_progress_steps j' = [j_steps j' ! h] \<and>
            length (in_progress_steps j') \<le> 1"
    if "j_currentStep j = Some i" "current_in_progress j"
      "startStep j t_end t_start nm' category = (j', h)" for i j' h
    using startStep_closes [OF inv that(2) that(1) that(3)] by simp
  have three: "(let (j', h) = startStep j t_end t_start nm' category in
            s_status (j_steps j' ! i) = completed \<and>
            s_endedAt (j_steps j' ! i) = Some (DateMs t_end) \<and>
            h = length (j_steps j) \<and>
            j_currentStep j' = Some h \<and>
            s_status (j_steps j' ! h) = in_progress \<and>
            in_progress_steps j' = [j_steps j' ! h] \<and>
            length (in_progress_steps j') \<le> 1)"
    if "j_currentStep j = Some i \<and> current_in_progress j" for i
  proof (cases "startStep j t_end t_start nm' category")
    case (Pair j' h)
    show ?thesis
      unfolding Pair Let_def prod.case using two [OF conjunct1 [OF that] conjunct2 [OF that] Pair] .
  qed
  show ?thesis
    unfolding Let_def j_def [symmetric] using one three [unfolded Let_def] by blast
qed

text \<open>An instance: the journey \<open>checkout\<close> with the step \<open>validate\<close> in progress, on which \<open>pay\<close> is started.\<close>

theorem single_active_step_witness:
  "(let j = journey_calls (Journey_new ''j1'' 0 0 ''checkout'') [Call_startStep 1 2 ''validate'' None] in
      j_currentStep j = Some 0 \<and> current_in_progress j \<and>
      (let (j', h) = startStep j 3 4 ''pay'' None in
         s_status (j_steps j' ! 0) = completed \<and> s_endedAt (j_steps j' ! 0) = Some (DateMs 3) \<and>
         h = 1 \<and> j_currentStep j' = Some 1 \<and> s_status (j_steps j' ! 1) = in_progress \<and>
         map s_name (in_progress_steps j') = [''pay'']))"
  using single_active_step [of "''j1''" 0 0 "''checkout''" "[Call_startStep 1 2 ''validate'' None]" 3 4 "''pay''" None]
  by (simp add: journey_calls_def Journey_new_def startStep_def current_in_progress_def
      finish_step_def in_progress_steps_def Let_def)

section \<open>The offline queue, the transport and the drain\<close>

lemma enqueue_queue:
  "queue (enqueue q e) =
     (if int (length (queue q)) \<ge> maxSize q then drop 1 (queue q) else queue q) @ [e]"
  by (simp add: enqueue_def Let_def)

lemma enqueue_maxSize [simp]: "maxSize (enqueue q e) = maxSize q"
  by (simp add: enqueue_def Let_def)

lemma enqueue_all_maxSize [simp]: "maxSize (enqueue_all q es) = maxSize q"
  unfolding enqueue_all_def by (induction es arbitrary: q) simp_all

lemma enqueue_all_snoc: "enqueue_all q (es @ [e]) = enqueue (enqueue_all q es) e"
  by (simp add: enqueue_all_def)

lemma lastn_length: "length (lastn n xs) = min n (length xs)"
  by (simp add: lastn_def)

lemma enqueue_lastn:
  assumes "maxSize q = int n" "0 < n" "length (queue q) \<le> n"
  shows "queue (enqueue q e) = lastn n (queue q @ [e])"
proof (cases "length (queue q) = n")
  case True
  with assms show ?thesis by (simp add: enqueue_queue lastn_def)
next
  case False
  with assms have "length (queue q) < n" by simp
  with assms show ?thesis by (simp add: enqueue_queue lastn_def)
qed

lemma enqueue_all_keeps_last:
  assumes "maxSize q = int n" "0 < n" "length (queue q) \<le> n"
  shows "queue (enqueue_all q es) = lastn n (queue q @ es)"
  using assms
proof (induction es rule: rev_induct)
  case Nil
  then show ?case by (simp add: enqueue_all_def lastn_def)
next
  case (snoc e es)
  then have ih: "queue (enqueue_all q es) = lastn n (queue q @ es)" by simp
  have "length (queue (enqueue_all q es)) \<le> n" by (simp add: ih lastn_length)
  then have "queue (enqueue (enqueue_all q es) e) = lastn n (queue (enqueue_all q es) @ [e])"
    using snoc.prems by (intro enqueue_lastn) simp_all
  also have "\<dots> = lastn n ((queue q @ es) @ [e])"
    using snoc.prems by (simp only: ih lastn_snoc)
  finally show ?case by (simp add: enqueue_all_snoc)
qed

lemma enqueue_bounded:
  assumes "maxSize q = int n" "0 < n" "length (queue q) \<le> n"
  shows "length (queue (enqueue_all q es)) \<le> n"
  by (simp add: enqueue_all_keeps_last [OF assms] lastn_length)

lemma enqueue_full_drops_oldest:
  assumes "maxSize q = int n" "0 < n" "length (queue q) = n"
  shows "queue (enqueue q e) = tl (queue q) @ [e]"
  using assms by (simp add: enqueue_queue drop_Suc)

lemma eventId_deserializeEvent [simp]: "eventId (deserializeEvent d) = eventId d"
  by (simp add: deserializeEvent_def)

lemma eventId_stringify_event [simp]: "eventId (stringify_event objs e) = eventId e"
  by (simp add: stringify_event_def)

lemma eventId_plain [simp]: "eventId (plain_event eid now) = eid"
  by (simp add: plain_event_def)

text \<open>
  C2: a queue built with capacity \<open>M\<close> never holds more than \<open>M\<close> events, and enqueueing
  beyond \<open>M\<close> keeps the \<open>M\<close> most recent ones, dropping the oldest each time. This holds
  when \<open>M \<ge> 1\<close> and the constructor loaded at most \<open>M\<close> events
  (\<open>enqueue_all_keeps_last\<close>, \<open>enqueue_bounded\<close>, \<open>enqueue_full_drops_oldest\<close>). It fails
  when storage holds more events than the capacity, since \<open>load\<close> does not trim and
  \<open>enqueue\<close> shifts one event per call: with three stored events and capacity 2 the queue
  holds three events after an \<open>enqueue\<close>. It also fails for capacity 0, where the queue
  holds one event.
\<close>

theorem queue_exceeds_capacity:
  "(let stored = Item (map (stringify_event (\<lambda>a. [])) [plain_event ''e1'' 1000, plain_event ''e2'' 2000, plain_event ''e3'' 3000]);
        q = enqueue (OfflineQueue_new 2 stored) (plain_event ''e4'' 4000)
    in map eventId (queue q) = [''e2'', ''e3'', ''e4''] \<and> int (length (queue q)) > maxSize q) \<and>
   (let q = enqueue (OfflineQueue_new 0 NoItem) (plain_event ''e1'' 1000)
    in map eventId (queue q) = [''e1''] \<and> int (length (queue q)) > maxSize q)"
  by (simp add: OfflineQueue_new_def load_def enqueue_queue Let_def)

lemma queue_remove_queue [simp]:
  "queue (queue_remove q i) = filter (\<lambda>e. eventId e \<noteq> i) (queue q)"
  by (simp add: queue_remove_def)

lemma loop_general:
  "processQueue_loop objs net k es q att =
     (q\<lparr>queue := filter (\<lambda>e. eventId e \<notin> eventId ` set (delivered objs net k es)) (queue q)\<rparr>, att @ es)"
proof (induction es arbitrary: k q att)
  case Nil
  then show ?case by simp
next
  case (Cons x xs)
  show ?case
  proof (cases "r_success (send objs (net k) x)")
    case True
    have "filter (\<lambda>e. eventId e \<notin> eventId ` set (delivered objs net (Suc k) xs))
            (filter (\<lambda>e. eventId e \<noteq> eventId x) (queue q)) =
          filter (\<lambda>e. eventId e \<notin> eventId ` set (x # delivered objs net (Suc k) xs)) (queue q)"
      by (auto intro: filter_cong)
    with True show ?thesis
      by (simp add: Cons.IH Let_def queue_remove_def)
  next
    case False
    then show ?thesis by (simp add: Cons.IH Let_def)
  qed
qed

lemma delivered_subset: "set (delivered objs net k es) \<subseteq> set es"
  by (induction es arbitrary: k) auto

lemma delivered_filter:
  "(\<And>i. i < length es \<Longrightarrow> r_success (send objs (net (k + i)) (es ! i)) \<longleftrightarrow> es ! i \<in> S)
     \<Longrightarrow> delivered objs net k es = filter (\<lambda>e. e \<in> S) es"
proof (induction es arbitrary: k)
  case Nil
  then show ?case by simp
next
  case (Cons x xs)
  have hd: "r_success (send objs (net k) x) \<longleftrightarrow> x \<in> S"
    using Cons.prems [of 0] by simp
  have "delivered objs net (Suc k) xs = filter (\<lambda>e. e \<in> S) xs"
  proof (rule Cons.IH)
    fix i assume "i < length xs"
    then show "r_success (send objs (net (Suc k + i)) (xs ! i)) \<longleftrightarrow> xs ! i \<in> S"
      using Cons.prems [of "Suc i"] by simp
  qed
  with hd show ?case by simp
qed

lemma delivered_nth:
  "i < length es \<Longrightarrow> r_success (send objs (net (k + i)) (es ! i)) \<Longrightarrow> es ! i \<in> set (delivered objs net k es)"
proof (induction es arbitrary: k i)
  case Nil
  then show ?case by simp
next
  case (Cons x xs)
  show ?case
  proof (cases i)
    case 0
    with Cons.prems show ?thesis by simp
  next
    case (Suc j)
    with Cons.prems have "xs ! j \<in> set (delivered objs net (Suc k) xs)"
      by (intro Cons.IH) simp_all
    with Suc show ?thesis by simp
  qed
qed

lemma processQueue_online:
  assumes "c_queue c = Some q" "queue q \<noteq> []" "isOnline probe"
  shows "processQueue c objs probe net =
           (c\<lparr>c_queue := Some (q\<lparr>queue := filter (\<lambda>e. eventId e \<notin> eventId ` set (delivered objs net 0 (queue q)))
                                            (queue q)\<rparr>)\<rparr>, queue q)"
  using assms by (simp add: processQueue_def isEmpty_def queue_getAll_def loop_general)

lemma processQueue_attempts:
  "snd (processQueue c objs probe net) = [] \<or>
   (\<exists>q. c_queue c = Some q \<and> snd (processQueue c objs probe net) = queue q)"
  by (auto simp: processQueue_def queue_getAll_def loop_general split: option.splits)

lemma distinct_ids_filter:
  assumes "distinct (map eventId qs)" "set es \<subseteq> set qs"
  shows "filter (\<lambda>e. eventId e \<notin> eventId ` set (filter (\<lambda>e. e \<in> S) es)) qs =
         filter (\<lambda>e. e \<notin> S \<inter> set es) qs"
proof (rule filter_cong [OF refl])
  fix e assume e: "e \<in> set qs"
  from assms(1) have inj: "inj_on eventId (set qs)" by (simp add: distinct_map)
  show "(eventId e \<notin> eventId ` set (filter (\<lambda>e. e \<in> S) es)) = (e \<notin> S \<inter> set es)"
  proof
    assume "eventId e \<notin> eventId ` set (filter (\<lambda>e. e \<in> S) es)"
    then show "e \<notin> S \<inter> set es" by auto
  next
    assume n: "e \<notin> S \<inter> set es"
    show "eventId e \<notin> eventId ` set (filter (\<lambda>e. e \<in> S) es)"
    proof
      assume "eventId e \<in> eventId ` set (filter (\<lambda>e. e \<in> S) es)"
      then obtain e' where e': "e' \<in> S" "e' \<in> set es" "eventId e = eventId e'" by auto
      with assms(2) have "e' \<in> set qs" by auto
      with inj e e'(3) have "e = e'" by (auto dest: inj_onD)
      with e' n show False by simp
    qed
  qed
qed

text \<open>
  C1: for a queue of events with pairwise distinct identifiers, a drain while the collector
  is reachable, in which \<open>send\<close> succeeds exactly for the events of a subset \<open>S\<close>, hands
  every queued event to \<open>send\<close> in queue order and leaves the events outside \<open>S\<close> in
  their order. After the first \<open>n\<close> attempts exactly the events of \<open>S\<close> among the first
  \<open>n\<close> have been removed: a success is removed at once, a failure neither keeps an earlier
  success in the queue nor stops the loop.
\<close>

theorem drain_removes_exactly_the_delivered:
  assumes "c_queue c = Some q" and "queue q \<noteq> []" and "distinct (map eventId (queue q))"
    and "isOnline probe" and "S \<subseteq> set (queue q)"
    and "\<forall>k < length (queue q). r_success (send objs (net k) (queue q ! k)) \<longleftrightarrow> queue q ! k \<in> S"
  shows "processQueue c objs probe net =
           (c\<lparr>c_queue := Some (q\<lparr>queue := filter (\<lambda>e. e \<notin> S) (queue q)\<rparr>)\<rparr>, queue q) \<and>
         (\<forall>n \<le> length (queue q).
            processQueue_loop objs net 0 (take n (queue q)) q [] =
              (q\<lparr>queue := filter (\<lambda>e. e \<notin> S \<inter> set (take n (queue q))) (queue q)\<rparr>,
               take n (queue q)))"
proof (intro conjI allI impI)
  have d: "delivered objs net 0 (take n (queue q)) = filter (\<lambda>e. e \<in> S) (take n (queue q))"
    if "n \<le> length (queue q)" for n
    by (rule delivered_filter) (use assms(6) that in simp)
  show "processQueue_loop objs net 0 (take n (queue q)) q [] =
              (q\<lparr>queue := filter (\<lambda>e. e \<notin> S \<inter> set (take n (queue q))) (queue q)\<rparr>,
               take n (queue q))" if "n \<le> length (queue q)" for n
    using distinct_ids_filter [OF assms(3) set_take_subset, of S n]
    by (simp add: loop_general d [OF that])
  have "filter (\<lambda>e. e \<notin> S \<inter> set (queue q)) (queue q) = filter (\<lambda>e. e \<notin> S) (queue q)"
    by (rule filter_cong) auto
  then show "processQueue c objs probe net =
           (c\<lparr>c_queue := Some (q\<lparr>queue := filter (\<lambda>e. e \<notin> S) (queue q)\<rparr>)\<rparr>, queue q)"
    using distinct_ids_filter [OF assms(3) subset_refl, of S] d [of "length (queue q)"]
    by (simp add: processQueue_online [OF assms(1,2,4)])
qed

lemma date_toISOString_Inr: "(\<exists>s. date_toISOString d = Inr s) \<longleftrightarrow> d \<noteq> InvalidDate"
  by (cases d) (simp_all add: date_toISOString_def)

lemma date_toISOString_Inl:
  "date_toISOString d = Inl x \<Longrightarrow> d = InvalidDate \<and> x = ErrorObj ''Invalid time value''"
  by (cases d) (simp_all add: date_toISOString_def)

lemma serialize_breadcrumbs_Inr:
  "(\<exists>r. serialize_breadcrumbs bs = Inr r) \<longleftrightarrow> list_all (\<lambda>b. b_timestamp b \<noteq> InvalidDate) bs"
proof (induction bs)
  case Nil
  then show ?case by simp
next
  case (Cons b bs)
  show ?case
  proof (cases "b_timestamp b")
    case (DateMs t)
    then show ?thesis using Cons
      by (cases "serialize_breadcrumbs bs") (auto simp: date_toISOString_def)
  next
    case InvalidDate
    then show ?thesis by (simp add: date_toISOString_def)
  qed
qed

lemma serialize_journey_Inr:
  "(\<exists>r. serialize_journey j = Inr r) \<longleftrightarrow> (case j of None \<Rightarrow> True | Some c \<Rightarrow> jc_startedAt c \<noteq> InvalidDate)"
proof (cases j)
  case None
  then show ?thesis by (simp add: serialize_journey_def)
next
  case (Some c)
  then show ?thesis
    by (cases "jc_startedAt c") (simp_all add: serialize_journey_def date_toISOString_def)
qed

lemma serializeEvent_Inr: "(\<exists>body. serializeEvent e = Inr body) \<longleftrightarrow> valid_dates e"
proof -
  have a: "(\<exists>s. date_toISOString (timestamp e) = Inr s) \<longleftrightarrow> timestamp e \<noteq> InvalidDate"
    by (rule date_toISOString_Inr)
  note b = serialize_breadcrumbs_Inr [of "breadcrumbs e"]
  note c = serialize_journey_Inr [of "journey e"]
  show ?thesis
    unfolding valid_dates_def a [symmetric] b [symmetric] c [symmetric]
    by (auto simp: serializeEvent_def split: sum.splits)
qed

lemma serialize_breadcrumbs_Inl:
  "serialize_breadcrumbs bs = Inl x \<Longrightarrow> x = ErrorObj ''Invalid time value''"
  by (induction bs) (auto split: sum.splits dest: date_toISOString_Inl)

lemma serializeEvent_Inl: "serializeEvent e = Inl x \<Longrightarrow> x = ErrorObj ''Invalid time value''"
  by (auto simp: serializeEvent_def serialize_journey_def split: sum.splits option.splits
      dest: date_toISOString_Inl serialize_breadcrumbs_Inl)

lemma serialize_breadcrumbs_data:
  "serialize_breadcrumbs bs = Inr r \<Longrightarrow> map b_data r = map b_data bs"
  by (induction bs arbitrary: r) (auto split: sum.splits)

lemma serializeEvent_stringify_error:
  assumes "serializeEvent e = Inr body"
  shows "event_stringify_error objs body = event_stringify_error objs e"
proof -
  from assms obtain ts bs j where p: "serialize_breadcrumbs (breadcrumbs e) = Inr bs"
    "serialize_journey (journey e) = Inr j"
    "body = \<lparr>eventId = eventId e, timestamp = ts, level = level e,
                         message = message e, exception = exception e,
                         user = user e, tags = tags e, extra = extra e,
                         breadcrumbs = bs, journey = j, environment = environment e,
                         appVersion = appVersion e, platform = platform e\<rparr>"
    by (auto simp: serializeEvent_def split: sum.splits)
  have d: "map b_data bs = map b_data (breadcrumbs e)"
    using p(1) by (rule serialize_breadcrumbs_data)
  have m: "(case j of None \<Rightarrow> None
            | Some c \<Rightarrow> stringify_error_properties (read_metadata objs (jc_metadata c))) =
           (case journey e of None \<Rightarrow> None
            | Some c \<Rightarrow> stringify_error_properties (read_metadata objs (jc_metadata c)))"
    using p(2) by (auto simp: serialize_journey_def split: option.splits sum.splits)
  show ?thesis
    unfolding event_stringify_error_def by (simp only: p(3) d m TelemetryEvent.simps)
qed

lemma sendable_body:
  "sendable objs e \<Longrightarrow> \<exists>body. serializeEvent e = Inr body \<and> event_stringify_error objs body = None"
  using serializeEvent_Inr [of e] serializeEvent_stringify_error [of e _ objs]
  by (auto simp: sendable_def)

lemma send_catches: "send_try objs net e = Inl x \<Longrightarrow> send objs net e = failure (thrown_message x)"
  by (simp add: send_def failure_def thrown_message_def)

lemma send_invalid_dates: "\<not> valid_dates e \<Longrightarrow> send objs net e = failure ''Invalid time value''"
proof -
  assume "\<not> valid_dates e"
  then obtain x where x: "serializeEvent e = Inl x"
    using serializeEvent_Inr [of e] by (cases "serializeEvent e") auto
  then have "x = ErrorObj ''Invalid time value''" by (rule serializeEvent_Inl)
  with x show ?thesis by (simp add: send_def send_try_def failure_def)
qed

lemma send_unserializable:
  assumes "valid_dates e" "event_stringify_error objs e = Some x"
  shows "send objs net e = failure (thrown_message x)"
proof -
  from assms(1) obtain body where b: "serializeEvent e = Inr body"
    using serializeEvent_Inr [of e] by auto
  with assms(2) have "event_stringify_error objs body = Some x"
    by (simp add: serializeEvent_stringify_error)
  with b show ?thesis
    by (simp add: send_def send_try_def failure_def thrown_message_def)
qed

lemma send_rejected:
  "sendable objs e \<Longrightarrow> send objs (Rejected x) e = failure (thrown_message x)"
proof -
  assume "sendable objs e"
  then obtain b where b: "serializeEvent e = Inr b" "event_stringify_error objs b = None"
    using sendable_body by blast
  then show ?thesis
    by (simp add: send_def send_try_def failure_def thrown_message_def)
qed

lemma send_not_ok:
  assumes "sendable objs e" "\<not> ok response"
  shows "send objs (Resolved response) e =
           (case rs_text response of
              Inl x \<Rightarrow> failure (thrown_message x)
            | Inr errorText \<Rightarrow> failure (''HTTP '' @ show_nat (rs_status response) @ '': '' @ errorText))"
proof -
  from assms(1) obtain b where b: "serializeEvent e = Inr b" "event_stringify_error objs b = None"
    using sendable_body by blast
  show ?thesis
    using b assms(2)
    by (cases "rs_text response") (simp_all add: send_def send_try_def failure_def thrown_message_def)
qed

lemma send_ok:
  assumes "sendable objs e" "ok response"
  shows "send objs (Resolved response) e =
           (case rs_json response of
              Inl x \<Rightarrow> failure (thrown_message x)
            | Inr JNull \<Rightarrow> failure ''Cannot read properties of null (reading 'eventId')''
            | Inr body \<Rightarrow>
                \<lparr>r_success = True,
                 r_eventId = Some (case server_eventId body of None \<Rightarrow> JStr (eventId e) | Some i \<Rightarrow> i),
                 r_error = None, r_queued = None\<rparr>)"
proof -
  from assms(1) obtain b where b: "serializeEvent e = Inr b" "event_stringify_error objs b = None"
    using sendable_body by blast
  show ?thesis
  proof (cases "rs_json response")
    case (Inl x)
    with b assms(2) show ?thesis
      by (simp add: send_def send_try_def failure_def thrown_message_def)
  next
    case (Inr body)
    with b assms(2) show ?thesis
      by (cases body)
        (auto simp: send_def send_try_def failure_def result_eventId_def server_eventId_def
          split: option.splits json.splits)
  qed
qed

lemma valid_dates_plain [simp]: "valid_dates (plain_event eid now)"
  by (simp add: valid_dates_def plain_event_def)

lemma sendable_plain [simp]: "sendable objs (plain_event eid now)"
  by (simp add: sendable_def event_stringify_error_def data_error_def plain_event_def valid_dates_def)

lemma ok_accepted: "accepted = Resolved r \<Longrightarrow> ok r"
  by (auto simp: accepted_def ok_def)

lemma send_accepted: "sendable objs e \<Longrightarrow> r_success (send objs accepted e)"
  unfolding accepted_def
  by (subst send_ok) (simp_all add: ok_def)

lemma send_unreachable: "sendable objs e \<Longrightarrow> \<not> r_success (send objs unreachable e)"
  by (simp add: unreachable_def send_rejected failure_def)

lemma isOnline_accepted [simp]: "isOnline accepted"
  by (simp add: isOnline_def accepted_def ok_def)

lemma send_not_sendable: "\<not> sendable objs e \<Longrightarrow> \<exists>msg. send objs net e = failure msg"
proof (cases "valid_dates e")
  case False
  then have "send objs net e = failure ''Invalid time value''" by (rule send_invalid_dates)
  then show ?thesis by blast
next
  case True
  assume "\<not> sendable objs e"
  with True obtain x where "event_stringify_error objs e = Some x"
    by (auto simp: sendable_def)
  with True have "send objs net e = failure (thrown_message x)" by (rule send_unserializable)
  then show ?thesis by blast
qed

text \<open>
  What \<open>send\<close> returns, case by case. It returns success when the event can be serialized,
  the response has a 2xx status and its body parses to a JSON value other than \<open>null\<close>,
  and a failure with an error string otherwise.
\<close>

lemma send_success_iff:
  "r_success (send objs net e) \<longleftrightarrow>
      sendable objs e \<and>
      (\<exists>response body. net = Resolved response \<and> ok response \<and>
         rs_json response = Inr body \<and> body \<noteq> JNull)"
proof (cases "sendable objs e")
  case False
  then obtain msg where "send objs net e = failure msg"
    using send_not_sendable by blast
  with False show ?thesis by (simp add: failure_def)
next
  case True
  show ?thesis
  proof (cases net)
    case (Rejected x)
    with True show ?thesis by (simp add: send_rejected failure_def)
  next
    case (Resolved response)
    show ?thesis
    proof (cases "ok response")
      case False
      with True Resolved show ?thesis
        by (simp add: send_not_ok failure_def split: sum.splits)
    next
      case ok: True
      show ?thesis
      proof (cases "rs_json response")
        case (Inl x)
        with True Resolved ok show ?thesis by (simp add: send_ok failure_def)
      next
        case (Inr body)
        with True Resolved ok show ?thesis
          by (cases body) (simp_all add: send_ok failure_def)
      qed
    qed
  qed
qed

lemma send_failure_has_error:
  assumes "\<not> r_success (send objs net e)"
  shows "\<exists>msg. send objs net e = failure msg"
proof (cases "sendable objs e")
  case False
  then show ?thesis by (rule send_not_sendable)
next
  case True
  show ?thesis
  proof (cases net)
    case (Rejected x)
    have "send objs net e = failure (thrown_message x)"
      unfolding Rejected by (rule send_rejected [OF True])
    then show ?thesis by blast
  next
    case (Resolved response)
    show ?thesis
    proof (cases "ok response")
      case False
      note eq = send_not_ok [OF True False, folded Resolved]
      show ?thesis
      proof (cases "rs_text response")
        case (Inl x)
        with eq have "send objs net e = failure (thrown_message x)" by simp
        then show ?thesis by blast
      next
        case (Inr t)
        with eq have "send objs net e = failure (''HTTP '' @ show_nat (rs_status response) @ '': '' @ t)"
          by simp
        then show ?thesis by blast
      qed
    next
      case ok: True
      note eq = send_ok [OF True ok, folded Resolved]
      show ?thesis
      proof (cases "rs_json response")
        case (Inl x)
        with eq have "send objs net e = failure (thrown_message x)" by simp
        then show ?thesis by blast
      next
        case (Inr body)
        show ?thesis
        proof (cases "body = JNull")
          case True
          with eq Inr have "send objs net e = failure ''Cannot read properties of null (reading 'eventId')''"
            by simp
          then show ?thesis by blast
        next
          case False
          with eq Inr have "r_success (send objs net e)" by (cases body) simp_all
          with assms show ?thesis by simp
        qed
      qed
    qed
  qed
qed

text \<open>Instances: a 201 response carrying an identifier, a 200 response without one, a 503 response and no connection.\<close>

lemma send_examples:
  "(let e = plain_event ''e1'' 1000;
        created = Resolved \<lparr>rs_status = 201, rs_text = Inr ''{\"eventId\":\"srv-7\"}'',
                             rs_json = Inr (JObj [(''eventId'', JStr ''srv-7'')])\<rparr>;
        busy = Resolved \<lparr>rs_status = 503, rs_text = Inr ''busy'', rs_json = Inl (ErrorObj ''Unexpected token'')\<rparr>
    in send objs created e = \<lparr>r_success = True, r_eventId = Some (JStr ''srv-7''), r_error = None, r_queued = None\<rparr> \<and>
       send objs accepted e = \<lparr>r_success = True, r_eventId = Some (JStr ''e1''), r_error = None, r_queued = None\<rparr> \<and>
       send objs busy e = failure ''HTTP 503: busy'' \<and>
       send objs unreachable e = failure ''Failed to fetch'')"
proof -
  have s: "show_nat 503 = ''503''" by code_simp
  show ?thesis
    by (simp add: Let_def send_ok send_not_ok send_rejected ok_def server_eventId_def accepted_def
        unreachable_def thrown_message_def s)
qed

text \<open>An event whose extras hold a big integer is not posted: \<open>JSON.stringify\<close> throws.\<close>

lemma send_big_integer:
  "send objs accepted ((plain_event ''e1'' 1000)\<lparr>extra := [(''total'', VBigInt 10)]\<rparr>) =
     failure ''Do not know how to serialize a BigInt''"
proof -
  let ?e = "(plain_event ''e1'' 1000)\<lparr>extra := [(''total'', VBigInt 10)]\<rparr>"
  have v: "valid_dates ?e" by (simp add: valid_dates_def plain_event_def)
  have s: "event_stringify_error objs ?e = Some (ErrorObj ''Do not know how to serialize a BigInt'')"
    by (simp add: event_stringify_error_def data_error_def plain_event_def)
  show ?thesis using send_unserializable [OF v s] by (simp add: thrown_message_def)
qed

text \<open>
  C7: \<open>send\<close> never throws; it returns success for every response with a 2xx status, with
  or without a JSON body, and a failure with an error string for a network error and for
  every other status. The code does not return success for a 2xx response without a JSON
  body: \<open>response.json()\<close> is awaited without a guard and rejects on the empty body of a
  204 response, and \<open>result.eventId\<close> throws on the body \<open>null\<close>; the \<open>catch\<close> clause
  turns both into a failure. \<open>sendEvent\<close> then queues the event the collector accepted,
  and a drain posts it again and keeps it.
\<close>

theorem send_fails_on_2xx_without_json_body:
  "(let e = plain_event ''e1'' 1000;
        no_content = Resolved \<lparr>rs_status = 204, rs_text = Inr [],
                                rs_json = Inl (ErrorObj ''Unexpected end of JSON input'')\<rparr>;
        null_body = Resolved \<lparr>rs_status = 200, rs_text = Inr ''null'', rs_json = Inr JNull\<rparr>
    in send (\<lambda>a. []) no_content e = failure ''Unexpected end of JSON input'' \<and>
       send (\<lambda>a. []) null_body e = failure ''Cannot read properties of null (reading 'eventId')'' \<and>
       sendEvent (client_with_queue []) (\<lambda>a. []) 0 no_content e =
         Inr ((failure ''Unexpected end of JSON input'')\<lparr>r_queued := Some True\<rparr>,
              client_with_queue [e], [BeforeSend e, TransportSend e, QueueEnqueue e]) \<and>
       processQueue (client_with_queue [e]) (\<lambda>a. []) accepted (\<lambda>k. no_content) =
         (client_with_queue [e], [e]))"
  by (simp add: Let_def send_ok ok_def thrown_message_def sendEvent_def processQueue_def
      client_with_queue_def TelemetryClient_new_def resolveOptions_def enqueue_def isEmpty_def
      queue_getAll_def failure_def)

lemma plain_event_eq [simp]: "plain_event a s = plain_event b t \<longleftrightarrow> a = b \<and> s = t"
  by (auto simp: plain_event_def)

text \<open>An instance: three queued events, the network failing at the second attempt only.\<close>

theorem drain_removes_exactly_the_delivered_witness:
  "(let E1 = plain_event ''e1'' 1000; E2 = plain_event ''e2'' 2000; E3 = plain_event ''e3'' 3000;
        q = \<lparr>maxSize = 500, queue = [E1, E2, E3]\<rparr>;
        c = client_with_queue [E1, E2, E3];
        net = (\<lambda>k. if k = 1 then unreachable else accepted);
        S = {E1, E3}
    in c_queue c = Some q \<and> queue q \<noteq> [] \<and> distinct (map eventId (queue q)) \<and>
       isOnline accepted \<and> S \<subseteq> set (queue q) \<and> S \<noteq> set (queue q) \<and>
       (\<forall>k < length (queue q). r_success (send (\<lambda>a. []) (net k) (queue q ! k)) \<longleftrightarrow> queue q ! k \<in> S) \<and>
       processQueue c (\<lambda>a. []) accepted net = (c\<lparr>c_queue := Some (q\<lparr>queue := [E2]\<rparr>)\<rparr>, [E1, E2, E3]) \<and>
       processQueue_loop (\<lambda>a. []) net 0 [E1] q [] = (q\<lparr>queue := [E2, E3]\<rparr>, [E1]) \<and>
       processQueue_loop (\<lambda>a. []) net 0 [E1, E2] q [] = (q\<lparr>queue := [E2, E3]\<rparr>, [E1, E2]))"
proof -
  let ?E1 = "plain_event ''e1'' 1000" and ?E2 = "plain_event ''e2'' 2000"
    and ?E3 = "plain_event ''e3'' 3000"
  let ?q = "\<lparr>maxSize = 500, queue = [?E1, ?E2, ?E3]\<rparr>"
  let ?c = "client_with_queue [?E1, ?E2, ?E3]"
  let ?net = "\<lambda>k::nat. if k = 1 then unreachable else accepted"
  let ?S = "{?E1, ?E3}"
  have h1: "c_queue ?c = Some ?q" by (simp add: client_with_queue_def)
  have h2: "queue ?q \<noteq> []" by simp
  have h3: "distinct (map eventId (queue ?q))" by simp
  have h4: "isOnline accepted" by simp
  have h5: "?S \<subseteq> set (queue ?q)" by simp
  have h6: "\<forall>k < length (queue ?q). r_success (send (\<lambda>a. []) (?net k) (queue ?q ! k)) \<longleftrightarrow> queue ?q ! k \<in> ?S"
  proof (intro allI impI)
    fix k assume "k < length (queue ?q)"
    then consider "k = 0" | "k = 1" | "k = 2" by force
    then show "r_success (send (\<lambda>a. []) (?net k) (queue ?q ! k)) \<longleftrightarrow> queue ?q ! k \<in> ?S"
      by cases (simp_all add: send_accepted send_unreachable)
  qed
  have take1: "take 1 (queue ?q) = [?E1]" "take 2 (queue ?q) = [?E1, ?E2]" by simp_all
  from drain_removes_exactly_the_delivered [OF h1 h2 h3 h4 h5 h6]
  have main: "processQueue ?c (\<lambda>a. []) accepted ?net =
           (?c\<lparr>c_queue := Some (?q\<lparr>queue := filter (\<lambda>e. e \<notin> ?S) (queue ?q)\<rparr>)\<rparr>, queue ?q)"
    and pre: "\<And>n. n \<le> length (queue ?q) \<Longrightarrow>
            processQueue_loop (\<lambda>a. []) ?net 0 (take n (queue ?q)) ?q [] =
              (?q\<lparr>queue := filter (\<lambda>e. e \<notin> ?S \<inter> set (take n (queue ?q))) (queue ?q)\<rparr>,
               take n (queue ?q))"
    by blast+
  have "?E2 \<in> set (queue ?q)" "?E2 \<notin> ?S" by simp_all
  then have ne: "?S \<noteq> set (queue ?q)" by metis
  have m: "processQueue ?c (\<lambda>a. []) accepted ?net = (?c\<lparr>c_queue := Some (?q\<lparr>queue := [?E2]\<rparr>)\<rparr>, [?E1, ?E2, ?E3])"
    using main by simp
  have p1: "processQueue_loop (\<lambda>a. []) ?net 0 [?E1] ?q [] = (?q\<lparr>queue := [?E2, ?E3]\<rparr>, [?E1])"
    using pre [of 1] by (simp del: processQueue_loop.simps)
  have p2: "processQueue_loop (\<lambda>a. []) ?net 0 [?E1, ?E2] ?q [] = (?q\<lparr>queue := [?E2, ?E3]\<rparr>, [?E1, ?E2])"
    using pre [of 2] by (simp del: processQueue_loop.simps)
  show ?thesis
    unfolding Let_def by (intro conjI h1 h2 h3 h4 h5 ne h6 m p1 p2)
qed

section \<open>Sampling, journeys of the client and persistence\<close>

text \<open>
  C10 as stated fails in its last part: the loop runs over the snapshot taken before the
  first removal, so the second of two events with one identifier is handed to \<open>send\<close> in
  the same drain, after the first one's success has removed it from the queue; here that
  attempt fails and the event is lost.
\<close>

theorem duplicate_is_still_attempted:
  "(let A = plain_event ''dup'' 1000; B = plain_event ''dup'' 2000;
        c = client_with_queue [A, B];
        net = (\<lambda>k. if k = 0 then accepted else unreachable)
    in eventId A = eventId B \<and> A \<noteq> B \<and> r_success (send (\<lambda>a. []) (net 0) A) \<and> \<not> r_success (send (\<lambda>a. []) (net 1) B) \<and>
       processQueue c (\<lambda>a. []) accepted net = (c\<lparr>c_queue := Some \<lparr>maxSize = 500, queue = []\<rparr>\<rparr>, [A, B]))"
  by (simp add: Let_def processQueue_def client_with_queue_def isEmpty_def queue_getAll_def
      queue_remove_def send_accepted send_unreachable)

text \<open>
  C10, amended: \<open>remove(eventId)\<close> deletes every queued entry with that identifier and
  keeps the others in order. In a drain every event of the snapshot is handed to \<open>send\<close>
  once, in order, also an event whose identifier an earlier, successful event shares; after
  the drain no event with the identifier of a successful one is left in the queue, whatever
  its own \<open>send\<close> returned, so no later drain attempts it.
\<close>

theorem remove_deletes_every_match:
  "(\<forall>e \<in> set (queue (queue_remove q i)). eventId e \<noteq> i) \<and>
   queue (queue_remove q i) = filter (\<lambda>e. eventId e \<noteq> i) (queue q) \<and>
   length (queue (queue_remove q i)) + length (filter (\<lambda>e. eventId e = i) (queue q)) = length (queue q) \<and>
   (c_queue c = Some q \<and> queue q \<noteq> [] \<and> isOnline probe \<and> a < b \<and> b < length (queue q) \<and>
    eventId (queue q ! a) = eventId (queue q ! b) \<and> r_success (send objs (net a) (queue q ! a)) \<longrightarrow>
      snd (processQueue c objs probe net) = queue q \<and>
      (\<exists>q1. c_queue (fst (processQueue c objs probe net)) = Some q1 \<and>
            (\<forall>e \<in> set (queue q1). eventId e \<noteq> eventId (queue q ! b))) \<and>
      (\<forall>objs1 probe1 net1. \<forall>e \<in> set (snd (processQueue (fst (processQueue c objs probe net)) objs1 probe1 net1)).
            eventId e \<noteq> eventId (queue q ! b)))"
proof -
  have count: "length (filter (\<lambda>e. eventId e \<noteq> i) xs) + length (filter (\<lambda>e. eventId e = i) xs) = length xs"
    for xs :: "Event list"
    by (induction xs) auto
  have drain: "snd (processQueue c objs probe net) = queue q \<and>
      (\<exists>q1. c_queue (fst (processQueue c objs probe net)) = Some q1 \<and>
            (\<forall>e \<in> set (queue q1). eventId e \<noteq> eventId (queue q ! b))) \<and>
      (\<forall>objs1 probe1 net1. \<forall>e \<in> set (snd (processQueue (fst (processQueue c objs probe net)) objs1 probe1 net1)).
            eventId e \<noteq> eventId (queue q ! b))"
    if h: "c_queue c = Some q" "queue q \<noteq> []" "isOnline probe" "a < b" "b < length (queue q)"
      "eventId (queue q ! a) = eventId (queue q ! b)" "r_success (send objs (net a) (queue q ! a))"
  proof -
    define q1 where "q1 = q\<lparr>queue := filter (\<lambda>e. eventId e \<notin> eventId ` set (delivered objs net 0 (queue q)))
                                            (queue q)\<rparr>"
    have pq: "processQueue c objs probe net = (c\<lparr>c_queue := Some q1\<rparr>, queue q)"
      unfolding q1_def by (rule processQueue_online [OF h(1,2,3)])
    from h(4,5,7) have "queue q ! a \<in> set (delivered objs net 0 (queue q))"
      by (intro delivered_nth) simp_all
    then have "eventId (queue q ! b) \<in> eventId ` set (delivered objs net 0 (queue q))"
      using h(6) by (metis imageI)
    then have gone: "\<forall>e \<in> set (queue q1). eventId e \<noteq> eventId (queue q ! b)"
      by (auto simp: q1_def)
    have later: "\<forall>e \<in> set (snd (processQueue (c\<lparr>c_queue := Some q1\<rparr>) objs1 probe1 net1)).
            eventId e \<noteq> eventId (queue q ! b)" for objs1 probe1 net1
      using processQueue_attempts [of "c\<lparr>c_queue := Some q1\<rparr>" objs1 probe1 net1] gone by auto
    show ?thesis
      using gone later by (simp add: pq)
  qed
  show ?thesis
    using count [of "queue q"] drain by (simp add: queue_remove_def)
qed

text \<open>An instance: two events with the identifier \<open>dup\<close> ahead of a third event, the first attempt succeeding.\<close>

theorem remove_deletes_every_match_witness:
  "(let A = plain_event ''dup'' 1000; B = plain_event ''dup'' 2000; C = plain_event ''other'' 3000;
        q = \<lparr>maxSize = 500, queue = [A, B, C]\<rparr>;
        c = client_with_queue [A, B, C];
        net = (\<lambda>k. if k = 0 then accepted else unreachable)
    in c_queue c = Some q \<and> queue q \<noteq> [] \<and> isOnline accepted \<and> (0::nat) < 1 \<and> 1 < length (queue q) \<and>
       eventId (queue q ! 0) = eventId (queue q ! 1) \<and> r_success (send (\<lambda>a. []) (net 0) (queue q ! 0)) \<and>
       queue (queue_remove q ''dup'') = [C] \<and>
       snd (processQueue c (\<lambda>a. []) accepted net) = [A, B, C] \<and>
       c_queue (fst (processQueue c (\<lambda>a. []) accepted net)) = Some (q\<lparr>queue := [C]\<rparr>))"
proof -
  let ?A = "plain_event ''dup'' 1000" and ?B = "plain_event ''dup'' 2000"
    and ?C = "plain_event ''other'' 3000"
  let ?q = "\<lparr>maxSize = 500, queue = [?A, ?B, ?C]\<rparr>"
  let ?c = "client_with_queue [?A, ?B, ?C]"
  let ?net = "\<lambda>k::nat. if k = 0 then accepted else unreachable"
  have h: "c_queue ?c = Some ?q \<and> queue ?q \<noteq> [] \<and> isOnline accepted \<and> (0::nat) < 1 \<and>
       1 < length (queue ?q) \<and> eventId (queue ?q ! 0) = eventId (queue ?q ! 1) \<and>
       r_success (send (\<lambda>a. []) (?net 0) (queue ?q ! 0))"
    by (simp add: client_with_queue_def send_accepted)
  have ev: "processQueue ?c (\<lambda>a. []) accepted ?net = (?c\<lparr>c_queue := Some (?q\<lparr>queue := [?C]\<rparr>)\<rparr>, [?A, ?B, ?C])"
    by (simp add: Let_def processQueue_def client_with_queue_def isEmpty_def queue_getAll_def
      queue_remove_def send_accepted send_unreachable)
  show ?thesis
    using remove_deletes_every_match [of ?q "''dup''" ?c accepted 0 1 "\<lambda>a. []" ?net] h
    by (simp add: Let_def ev)
qed

lemma sendEvent_sampled_out:
  "draw > o_sampleRate (c_options c) \<Longrightarrow> sendEvent c objs draw net e = Inr (dropped e, c, [])"
  by (simp add: sendEvent_def)





lemma isComplete_new [simp]: "\<not> isComplete (Journey_new jid now addr nm)"
  by (simp add: isComplete_def Journey_new_def)

lemma isComplete_setUser [simp]: "isComplete (Journey_setUser j uid email dat) = isComplete j"
  by (simp add: isComplete_def Journey_setUser_def)

lemma isComplete_complete [simp]: "isComplete (Journey_complete j now)"
  by (simp add: isComplete_def Journey_complete_def)

text \<open>
  C9: after two \<open>startJourney\<close> calls the client's current journey is the second one.
  Disposing the scope of the first completes the first journey and runs the callback, which
  clears the client's reference without looking at it: the second journey, not completed,
  is no longer current, and an event built next has no journey context.
\<close>

theorem disposing_older_scope_detaches_current_journey:
  "(let (ch1, scope1) = startJourney (c, h) jid1 t1 name1;
        (ch2, scope2) = startJourney ch1 jid2 t2 name2;
        ch3 = JourneyScope_dispose ch2 scope1 t3
    in sc_journey scope1 \<noteq> sc_journey scope2 \<and>
       c_currentJourney (fst ch2) = Some (sc_journey scope2) \<and>
       c_currentJourney (fst ch3) = None \<and>
       isComplete (h_journeys (snd ch3) ! sc_journey scope1) \<and>
       \<not> isComplete (h_journeys (snd ch3) ! sc_journey scope2) \<and>
       journey (createEvent ch3 eid now pf lvl msg exc) = None)"
  by (cases "c_user c")
    (simp_all add: startJourney_def JourneyScope_dispose_def Let_def on_journey_def createEvent_def
      nth_append)

text \<open>
  C6: the journey context of a built event is a copy that later calls on the live journey
  cannot change. The identifier, the name, the start time and the current step's name are
  copied, but \<open>getContext\<close> stores \<open>this.metadata\<close> itself, the object \<open>setMetadata\<close>
  writes to: the metadata read through an event built before the call has the new entry.
\<close>

theorem setMetadata_changes_built_event:
  "(let c0 = client_with_options 1 None;
        h0 = \<lparr>h_journeys = [], h_objects = []\<rparr>;
        (ch1, scope) = startJourney (c0, h0) ''j1'' 1000 ''checkout'';
        event = createEvent ch1 ''e1'' 2000
                  \<lparr>p_name = ''unknown'', p_version = None, p_os = None, p_userAgent = None\<rparr>
                  Error (Some ''payment failed'') None;
        h2 = Journey_setMetadata (snd ch1) (h_journeys (snd ch1) ! sc_journey scope) ''cart'' (VNum 3)
    in map_option (\<lambda>j. read_metadata (read_object (snd ch1)) (jc_metadata j)) (journey event) = Some [] \<and>
       map_option (\<lambda>j. read_metadata (read_object h2) (jc_metadata j)) (journey event) =
         Some [(''cart'', VNum 3)] \<and>
       map_option jc_metadata (journey (stringify_event (read_object (snd ch1)) event)) = Some [] \<and>
       map_option jc_metadata (journey (stringify_event (read_object h2) event)) =
         Some [(''cart'', JNum 3)])"
  by (simp add: startJourney_def Let_def createEvent_def client_with_options_def
      TelemetryClient_new_def getContext_def Journey_new_def Journey_setMetadata_def
      read_metadata_def read_object_def stringify_event_def stringify_journey_def)










text \<open>
  Apart from the journey metadata, what is written of an event does not depend on the
  object store: the other parts of a built event are values of its own.
\<close>

lemma built_event_frame:
  "(stringify_event objs e)\<lparr>journey := None\<rparr> = (stringify_event objs1 e)\<lparr>journey := None\<rparr>"
  "map_option (\<lambda>c. (jc_journeyId c, jc_name c, jc_currentStep c, jc_startedAt c))
     (journey (stringify_event objs e)) =
   map_option (\<lambda>c. (jc_journeyId c, jc_name c, jc_currentStep c, jc_startedAt c))
     (journey (stringify_event objs1 e))"
  by (cases "journey e"; simp add: stringify_event_def stringify_journey_def)+

section \<open>Further consequences\<close>

text \<open>
  The calls on a journey other than \<open>setMetadata\<close> change the journey objects only: what a
  built event reads from the store, and what is written of it, stays as it was.
\<close>

lemma read_object_on_journey [simp]: "read_object (on_journey h a f) = read_object h"
  by (rule ext) (simp add: read_object_def on_journey_def)

lemma journey_calls_keep_built_event:
  "stringify_event (read_object (on_journey h a f)) e = stringify_event (read_object h) e"
  "stringify_event (read_object (StepScope_dispose h scope now)) e = stringify_event (read_object h) e"
  "stringify_event (read_object (snd (JourneyScope_dispose (c, h) jscope now))) e =
     stringify_event (read_object h) e"
  by (simp_all add: StepScope_dispose_def JourneyScope_dispose_def Let_def)

text \<open>Both capture functions end in \<open>sendEvent\<close>: a draw above the rate drops what they built.\<close>

lemma capture_sampled_out:
  assumes "draw > o_sampleRate (c_options (fst ch))"
  shows "captureMessage ch eid now pf draw net msg lvl =
           Inr (dropped (createEvent ch eid now pf (case lvl of None \<Rightarrow> Info | Some l \<Rightarrow> l) (Some msg) None),
                fst ch, [])"
    and "\<exists>event. captureException ch eid now pf draw net exc ext = Inr (dropped event, fst ch, [])"
proof -
  show "captureMessage ch eid now pf draw net msg lvl =
           Inr (dropped (createEvent ch eid now pf (case lvl of None \<Rightarrow> Info | Some l \<Rightarrow> l) (Some msg) None),
                fst ch, [])"
    using assms by (simp add: captureMessage_def sendEvent_sampled_out)
  show "\<exists>event. captureException ch eid now pf draw net exc ext = Inr (dropped event, fst ch, [])"
    unfolding captureException_def Let_def
    using sendEvent_sampled_out [OF assms] by blast
qed

text \<open>
  The scenario of the specification: capacity 2, three failed events queued in order, then
  a drain in which only the last is delivered.
\<close>

lemma scenario_capacity_two:
  "(let E1 = plain_event ''e1'' 1000; E2 = plain_event ''e2'' 2000; E3 = plain_event ''e3'' 3000;
        q = enqueue_all (OfflineQueue_new 2 NoItem) [E1, E2, E3];
        c = (client_with_queue [])\<lparr>c_queue := Some q\<rparr>;
        net = (\<lambda>k. if k = 1 then accepted else unreachable)
    in queue q = [E2, E3] \<and>
       map_option queue (c_queue (fst (processQueue c (\<lambda>a. []) accepted net))) = Some [E2])"
  by (simp add: Let_def enqueue_all_def enqueue_queue OfflineQueue_new_def load_def
      processQueue_def isEmpty_def queue_getAll_def queue_remove_def send_accepted send_unreachable)

end
